theory Spec2Isabelle
  imports Main "HOL-Library.Sublist"
begin

text \<open>
  A shallow embedding of the outline text model and of the mutation tools of the
  Logseq tool server, taken from the server of version 4.0.0 (the functions
  \<open>parseBlocks\<close>, \<open>readPageFile\<close>, \<open>getAllPages\<close> and the tools \<open>search\<close>,
  \<open>insert_block\<close>, \<open>create_journal_page\<close>, \<open>update_block\<close> and \<open>delete_block\<close>), together
  with the tool \<open>update_block\<close> of the server of version 2.1.0 and the line writers
  \<open>insertBlock\<close> and \<open>exportGraph\<close> of the server of version 2.0.0.
  The file system is a value that the tools take and return; the source of fresh
  identities is a parameter.
\<close>

section \<open>Strings\<close>

text \<open>
  Source strings are modelled as \<^typ>\<open>string\<close>, one \<^typ>\<open>char\<close> per code unit, for the
  code units 0 to 255. The white-space class of \<open>trim\<close> and of the regular
  expression escape \<open>\s\<close> holds, in that range, the space, the tab, the line feed, the
  vertical tab, the form feed, the carriage return and the no-break space (code unit
  \<open>0xA0\<close>); the dot of a regular expression matches every character except the line
  terminators (in that range the line feed and the carriage return).
\<close>

definition is_space :: "char \<Rightarrow> bool" where
  "is_space c \<longleftrightarrow>
     c = CHR '' '' \<or> c = CHR 0x09 \<or> c = CHR 0x0A \<or> c = CHR 0x0B \<or> c = CHR 0x0C \<or> c = CHR 0x0D \<or>
     c = CHR 0xA0"

definition is_line_term :: "char \<Rightarrow> bool" where
  "is_line_term c \<longleftrightarrow> c = CHR 0x0A \<or> c = CHR 0x0D"

definition not_space :: "char \<Rightarrow> bool" where
  "not_space c \<longleftrightarrow> (if is_space c then False else True)"

definition dot_char :: "char \<Rightarrow> bool" where
  "dot_char c \<longleftrightarrow> (if is_line_term c then False else True)"

definition is_hex :: "char \<Rightarrow> bool" where
  "is_hex c \<longleftrightarrow> c \<in> set ''abcdef0123456789''"

definition is_uuid_char :: "char \<Rightarrow> bool" where
  "is_uuid_char c \<longleftrightarrow> is_hex c \<or> c = CHR ''-''"

definition is_key_start :: "char \<Rightarrow> bool" where
  "is_key_start c \<longleftrightarrow>
     c \<in> set ''abcdefghijklmnopqrstuvwxyzABCDEFGHIJKLMNOPQRSTUVWXYZ_''"

definition is_key_char :: "char \<Rightarrow> bool" where
  "is_key_char c \<longleftrightarrow> is_key_start c \<or> c \<in> set ''0123456789-''"

definition is_digit :: "char \<Rightarrow> bool" where
  "is_digit c \<longleftrightarrow> c \<in> set ''0123456789''"

text \<open>\<open>String.prototype.trim\<close>.\<close>

definition trim :: "string \<Rightarrow> string" where
  "trim s = rev (dropWhile is_space (rev (dropWhile is_space s)))"

text \<open>\<open>s.split('\n')\<close>: never empty; \<open>''.split('\n')\<close> is \<open>['']\<close>.\<close>

fun split_on :: "char \<Rightarrow> string \<Rightarrow> string list" where
  "split_on d [] = [[]]"
| "split_on d (c # cs) =
     (if c = d then [] # split_on d cs
      else (case split_on d cs of [] \<Rightarrow> [[c]] | l # ls \<Rightarrow> (c # l) # ls))"

definition split_lines :: "string \<Rightarrow> string list" where
  "split_lines s = split_on (CHR 0x0A) s"

text \<open>\<open>lines.join('\n')\<close>.\<close>

fun join_lines :: "string list \<Rightarrow> string" where
  "join_lines [] = []"
| "join_lines [l] = l"
| "join_lines (l # ls) = l @ CHR 0x0A # join_lines ls"

text \<open>\<open>s.includes(sub)\<close> and \<open>s.startsWith(p)\<close>.\<close>

definition startsWith :: "string \<Rightarrow> string \<Rightarrow> bool" where
  "startsWith s p = prefix p s"

fun str_includes :: "string \<Rightarrow> string \<Rightarrow> bool" where
  "str_includes [] sub = (sub = [])"
| "str_includes (c # cs) sub = (prefix sub (c # cs) \<or> str_includes cs sub)"

section \<open>Regular expressions of the block parser\<close>

text \<open>
  Every regular expression of the source is hand-compiled into a matcher. A matcher
  for an unanchored expression is given by its behaviour at the start of a string
  (the length of the matched span and the captures); the leftmost match, the list of
  all matches (\<open>matchAll\<close> with the \<open>g\<close> flag) and the global replacement by the empty
  string are the three scans below. After a match the scan resumes behind the matched
  span; the counter is the number of characters of the span still to skip.
\<close>

fun find_first :: "(string \<Rightarrow> (nat \<times> 'a) option) \<Rightarrow> string \<Rightarrow> 'a option" where
  "find_first m [] = None"
| "find_first m (c # cs) =
     (case m (c # cs) of Some (n, x) \<Rightarrow> Some x | None \<Rightarrow> find_first m cs)"

fun match_all :: "(string \<Rightarrow> (nat \<times> 'a) option) \<Rightarrow> nat \<Rightarrow> string \<Rightarrow> 'a list" where
  "match_all m k [] = []"
| "match_all m (Suc k) (c # cs) = match_all m k cs"
| "match_all m 0 (c # cs) =
     (case m (c # cs) of
        Some (n, x) \<Rightarrow> x # match_all m (n - 1) cs
      | None \<Rightarrow> match_all m 0 cs)"

fun replace_all :: "(string \<Rightarrow> (nat \<times> 'a) option) \<Rightarrow> nat \<Rightarrow> string \<Rightarrow> string" where
  "replace_all m k [] = []"
| "replace_all m (Suc k) (c # cs) = replace_all m k cs"
| "replace_all m 0 (c # cs) =
     (case m (c # cs) of
        Some (n, x) \<Rightarrow> replace_all m (n - 1) cs
      | None \<Rightarrow> c # replace_all m 0 cs)"

text \<open>Replacement of the first match only (no \<open>g\<close> flag).\<close>

fun replace_first :: "(string \<Rightarrow> (nat \<times> 'a) option) \<Rightarrow> string \<Rightarrow> string" where
  "replace_first m [] = []"
| "replace_first m (c # cs) =
     (case m (c # cs) of
        Some (n, x) \<Rightarrow> drop n (c # cs)
      | None \<Rightarrow> c # replace_first m cs)"

text \<open>
  \<open>\s+(.*)$\<close> at the start of a string: at least one white-space character, then the
  rest of the string, which must be free of line terminators; the capture is what
  follows the white space.
\<close>

definition ws_rest :: "string \<Rightarrow> string option" where
  "ws_rest s =
     (case s of
        [] \<Rightarrow> None
      | c # cs \<Rightarrow>
          if is_space c \<and> list_all dot_char (dropWhile is_space cs)
          then Some (dropWhile is_space cs) else None)"

text \<open>\<open>/^[-*+]\s*/\<close>, replaced by the empty string.\<close>

definition is_bullet :: "char \<Rightarrow> bool" where
  "is_bullet c \<longleftrightarrow> c = CHR ''-'' \<or> c = CHR ''*'' \<or> c = CHR ''+''"

definition strip_bullet :: "string \<Rightarrow> string" where
  "strip_bullet s =
     (case s of [] \<Rightarrow> [] | c # cs \<Rightarrow> if is_bullet c then dropWhile is_space cs else s)"

text \<open>\<open>/^([a-f0-9-]{36})\s+(.*)$/\<close> and \<open>/^([a-f0-9]{8})\s+(.*)$/\<close>.\<close>

definition fullUuidMatch :: "string \<Rightarrow> (string \<times> string) option" where
  "fullUuidMatch s =
     (if 36 \<le> length s \<and> list_all is_uuid_char (take 36 s)
      then map_option (Pair (take 36 s)) (ws_rest (drop 36 s)) else None)"

definition shortUuidMatch :: "string \<Rightarrow> (string \<times> string) option" where
  "shortUuidMatch s =
     (if 8 \<le> length s \<and> list_all is_hex (take 8 s)
      then map_option (Pair (take 8 s)) (ws_rest (drop 8 s)) else None)"

text \<open>\<open>/^(TODO|DOING|DONE|LATER|NOW|WAITING|IN-PROGRESS)\s+(.*)$/\<close>.\<close>

datatype todo = TODO | DOING | DONE | LATER | NOW | WAITING | IN_PROGRESS

fun todo_text :: "todo \<Rightarrow> string" where
  "todo_text TODO = ''TODO''"
| "todo_text DOING = ''DOING''"
| "todo_text DONE = ''DONE''"
| "todo_text LATER = ''LATER''"
| "todo_text NOW = ''NOW''"
| "todo_text WAITING = ''WAITING''"
| "todo_text IN_PROGRESS = ''IN-PROGRESS''"

definition todo_keywords :: "todo list" where
  "todo_keywords = [TODO, DOING, DONE, LATER, NOW, WAITING, IN_PROGRESS]"

fun todoMatch_from :: "todo list \<Rightarrow> string \<Rightarrow> (todo \<times> string) option" where
  "todoMatch_from [] s = None"
| "todoMatch_from (k # ks) s =
     (if prefix (todo_text k) s
      then (case ws_rest (drop (length (todo_text k)) s) of
              Some r \<Rightarrow> Some (k, r)
            | None \<Rightarrow> todoMatch_from ks s)
      else todoMatch_from ks s)"

definition todoMatch :: "string \<Rightarrow> (todo \<times> string) option" where
  "todoMatch s = todoMatch_from todo_keywords s"

text \<open>
  The priority cookie. \<open>cookie_at\<close> is \<open>\[#([ABC])]\<close> at the start of a string and
  returns the letter and the text behind the cookie.
\<close>

datatype priority = PrioA | PrioB | PrioC

fun priority_text :: "priority \<Rightarrow> string" where
  "priority_text PrioA = ''A''"
| "priority_text PrioB = ''B''"
| "priority_text PrioC = ''C''"

definition priority_of_char :: "char \<Rightarrow> priority option" where
  "priority_of_char c =
     (if c = CHR ''A'' then Some PrioA else if c = CHR ''B'' then Some PrioB
      else if c = CHR ''C'' then Some PrioC else None)"

definition cookie_at :: "string \<Rightarrow> (priority \<times> string) option" where
  "cookie_at s =
     (case s of
        c1 # c2 # c3 # c4 # r \<Rightarrow>
          if c1 = CHR ''['' \<and> c2 = CHR ''#'' \<and> c4 = CHR '']''
          then map_option (\<lambda>p. (p, r)) (priority_of_char c3) else None
      | _ \<Rightarrow> None)"

text \<open>
  \<open>/\[#([ABC])]\s*(.*)$/\<close> (not anchored at the start): the leftmost cookie whose
  remainder is free of line terminators; the second capture is the text behind the
  cookie and the white space that follows it.
\<close>

fun priorityMatch :: "string \<Rightarrow> (priority \<times> string) option" where
  "priorityMatch [] = None"
| "priorityMatch (c # cs) =
     (case cookie_at (c # cs) of
        Some (p, r) \<Rightarrow>
          if list_all dot_char (dropWhile is_space r)
          then Some (p, dropWhile is_space r) else priorityMatch cs
      | None \<Rightarrow> priorityMatch cs)"

text \<open>\<open>/\[#[ABC]\]/\<close> at the start of a string.\<close>

definition cookie_span :: "string \<Rightarrow> (nat \<times> unit) option" where
  "cookie_span s = map_option (\<lambda>x. (4, ())) (cookie_at s)"

text \<open>\<open>/\[#[ABC]\]\s*/\<close> at the start of a string.\<close>

definition cookie_ws_span :: "string \<Rightarrow> (nat \<times> unit) option" where
  "cookie_ws_span s =
     map_option (\<lambda>(p, r). (4 + length (takeWhile is_space r), ())) (cookie_at s)"

text \<open>
  \<open>KEY\s*<([^>]+)>\<close> at the start of a string, for the keys \<open>SCHEDULED:\<close> and
  \<open>DEADLINE:\<close>: span length and captured date text.
\<close>

definition marker_at :: "string \<Rightarrow> string \<Rightarrow> (nat \<times> string) option" where
  "marker_at kw s =
     (if prefix kw s then
        (let r = drop (length kw) s; ws = takeWhile is_space r
         in case dropWhile is_space r of
              [] \<Rightarrow> None
            | c # r2 \<Rightarrow>
                (let body = takeWhile (\<lambda>x. x \<noteq> CHR ''>'') r2
                 in if c = CHR ''<'' \<and> body \<noteq> [] \<and> dropWhile (\<lambda>x. x \<noteq> CHR ''>'') r2 \<noteq> []
                    then Some (length kw + length ws + 1 + length body + 1, body)
                    else None))
      else None)"

text \<open>\<open>([a-zA-Z_][a-zA-Z0-9_-]*):\s*([^\s]+)\<close> at the start of a string.\<close>

definition property_at :: "string \<Rightarrow> (nat \<times> string \<times> string) option" where
  "property_at s =
     (case s of
        [] \<Rightarrow> None
      | c # cs \<Rightarrow>
          if is_key_start c then
            (let key = c # takeWhile is_key_char cs
             in case dropWhile is_key_char cs of
                  [] \<Rightarrow> None
                | d # r \<Rightarrow>
                    (let ws = takeWhile is_space r; v = takeWhile not_space (dropWhile is_space r)
                     in if d = CHR '':'' \<and> v \<noteq> []
                        then Some (length key + 1 + length ws + length v, key, v)
                        else None))
          else None)"

text \<open>\<open>\(\(([a-f0-9-]{36})\)\)\<close> at the start of a string.\<close>

definition blockref_at :: "string \<Rightarrow> (nat \<times> string) option" where
  "blockref_at s =
     (if prefix ''(('' s \<and> 40 \<le> length s \<and> list_all is_uuid_char (take 36 (drop 2 s))
         \<and> take 2 (drop 38 s) = ''))''
      then Some (40, take 36 (drop 2 s)) else None)"

text \<open>\<open>\[\[([^\]]+)\]\]\<close> at the start of a string.\<close>

definition pageref_at :: "string \<Rightarrow> (nat \<times> string) option" where
  "pageref_at s =
     (if prefix ''[['' s then
        (let body = takeWhile (\<lambda>x. x \<noteq> CHR '']'') (drop 2 s);
             r = dropWhile (\<lambda>x. x \<noteq> CHR '']'') (drop 2 s)
         in if body \<noteq> [] \<and> prefix '']]'' r then Some (length body + 4, body) else None)
      else None)"

text \<open>\<open>#([a-zA-Z0-9_-]+)\<close> at the start of a string.\<close>

definition tag_at :: "string \<Rightarrow> (nat \<times> string) option" where
  "tag_at s =
     (case s of
        [] \<Rightarrow> None
      | c # cs \<Rightarrow>
          (let t = takeWhile is_key_char cs
           in if c = CHR ''#'' \<and> t \<noteq> [] then Some (length t + 1, t) else None))"

section \<open>The block parser\<close>

text \<open>
  The fields of a block that the parser fills. An absent \<open>properties\<close> or \<open>refs\<close>
  field (\<open>undefined\<close> in the source, set when nothing was found) is the empty list.
  The time stamps of a block and the fields the parser never sets are left out.
\<close>

record LogseqBlock =
  uuid :: string
  content :: string
  level :: nat
  todo :: "todo option"
  scheduled :: "string option"
  deadline :: "string option"
  priority :: "priority option"
  properties :: "(string \<times> string) list"
  refs :: "string list"

text \<open>
  \<open>properties[key] = value\<close> on a plain object: a new key is appended in insertion
  order, an existing key keeps its place and takes the new value. The key
  \<open>__proto__\<close> addresses the prototype accessor and a string value assigned to it is
  dropped, so it never becomes a key of the object.
\<close>

fun assign :: "(string \<times> string) list \<Rightarrow> string \<Rightarrow> string \<Rightarrow> (string \<times> string) list" where
  "assign [] k v = [(k, v)]"
| "assign ((k', v') # ps) k v = (if k' = k then (k, v) # ps else (k', v') # assign ps k v)"

fun assign_all :: "(string \<times> string) list \<Rightarrow> (string \<times> string) list \<Rightarrow> (string \<times> string) list" where
  "assign_all ps [] = ps"
| "assign_all ps ((k, v) # kvs) =
     assign_all (if k = ''__proto__'' then ps else assign ps k v) kvs"

text \<open>
  The references of a line: block references, then page references, then tags, each
  group in the order of the line (duplicates are kept, as the source pushes every
  match).
\<close>

definition line_refs :: "string \<Rightarrow> string list" where
  "line_refs s = match_all blockref_at 0 s @ match_all pageref_at 0 s @ match_all tag_at 0 s"

text \<open>The chain of replacements that produces \<open>content_clean\<close>.\<close>

definition clean_content :: "string \<Rightarrow> string" where
  "clean_content s =
     trim (replace_all cookie_span 0
            (replace_all property_at 0
              (replace_all (marker_at ''DEADLINE:'') 0
                (replace_all (marker_at ''SCHEDULED:'') 0 s))))"

text \<open>
  The identity of a line. \<open>fresh1\<close> and \<open>fresh2\<close> are the results of the two calls of
  \<open>generateUUID\<close> the loop body can make for the line.
\<close>

definition parse_uuid :: "string \<Rightarrow> string \<Rightarrow> string \<Rightarrow> string \<times> string" where
  "parse_uuid fresh1 fresh2 s =
     (case fullUuidMatch s of
        Some (u, r) \<Rightarrow> (u, r)
      | None \<Rightarrow>
          (case shortUuidMatch s of
             Some (u, r) \<Rightarrow> (u @ drop 8 fresh2, r)
           | None \<Rightarrow> (fresh1, s)))"

text \<open>
  One iteration of the loop of \<open>parseBlocks\<close>: the block a line produces, or
  \<open>None\<close> when the iteration ends in \<open>continue\<close> or pushes nothing.
\<close>

definition parseLine :: "string \<Rightarrow> string \<Rightarrow> string \<Rightarrow> LogseqBlock option" where
  "parseLine fresh1 fresh2 line =
     (if trim line = [] then None
      else if startsWith (trim line) ''#'' then None
      else
        (let (u, s1) = parse_uuid fresh1 fresh2 (strip_bullet (trim line));
             (td, s2) = (case todoMatch s1 of Some (k, r) \<Rightarrow> (Some k, r) | None \<Rightarrow> (None, s1));
             (pr, s3) = (case priorityMatch s2 of Some (p, r) \<Rightarrow> (Some p, r) | None \<Rightarrow> (None, s2))
         in if clean_content s3 = [] then None
            else Some \<lparr> uuid = u,
                        content = clean_content s3,
                        level = length (takeWhile is_space line) div 2,
                        todo = td,
                        scheduled = find_first (marker_at ''SCHEDULED:'') s3,
                        deadline = find_first (marker_at ''DEADLINE:'') s3,
                        priority = pr,
                        properties = assign_all [] (match_all property_at 0 s3),
                        refs = line_refs s3 \<rparr>))"

text \<open>
  \<open>parseBlocks\<close>. The source of fresh identities is a function of the line index:
  \<open>gen (2 * i)\<close> and \<open>gen (2 * i + 1)\<close> are the identities generated while line \<open>i\<close> is
  parsed.
\<close>

type_synonym uuid_gen = "nat \<Rightarrow> string"

fun parseLines :: "uuid_gen \<Rightarrow> nat \<Rightarrow> string list \<Rightarrow> LogseqBlock list" where
  "parseLines gen i [] = []"
| "parseLines gen i (l # ls) =
     (case parseLine (gen (2 * i)) (gen (2 * i + 1)) l of
        None \<Rightarrow> parseLines gen (Suc i) ls
      | Some b \<Rightarrow> b # parseLines gen (Suc i) ls)"

definition parseBlocks :: "uuid_gen \<Rightarrow> string \<Rightarrow> LogseqBlock list" where
  "parseBlocks gen text = parseLines gen 0 (split_lines text)"

section \<open>The page assembler\<close>

text \<open>
  The fields of a page that depend on the path and the text of its file. The page
  properties are listed in the order of the header lines (the platform lists keys
  that are array indices first; no statement below depends on that order).
\<close>

record LogseqPage =
  name :: string
  title :: string
  path :: string
  blocks :: "LogseqBlock list"
  page_properties :: "(string \<times> string) list"
  isJournal :: bool
  journalDay :: "nat option"

text \<open>\<open>s.indexOf(sub)\<close> and \<open>s.indexOf(sub, k)\<close>.\<close>

fun index_of :: "string \<Rightarrow> string \<Rightarrow> nat option" where
  "index_of [] sub = (if sub = [] then Some 0 else None)"
| "index_of (c # cs) sub =
     (if prefix sub (c # cs) then Some 0 else map_option Suc (index_of cs sub))"

definition index_of_from :: "string \<Rightarrow> string \<Rightarrow> nat \<Rightarrow> nat option" where
  "index_of_from s sub k = map_option (\<lambda>i. i + min k (length s)) (index_of (drop k s) sub)"

text \<open>
  \<open>path.basename(filePath, path.extname(filePath))\<close> on POSIX paths of files; the
  collection only holds files whose names end in \<open>.md\<close> or \<open>.org\<close>.
\<close>

definition basename :: "string \<Rightarrow> string" where
  "basename p = rev (takeWhile (\<lambda>c. c \<noteq> CHR ''/'') (rev p))"

definition extname :: "string \<Rightarrow> string" where
  "extname p =
     (let b = basename p; e = rev (takeWhile (\<lambda>c. c \<noteq> CHR ''.'') (rev b))
      in if CHR ''.'' \<in> set b \<and> length e + 1 < length b then CHR ''.'' # e else [])"

definition page_name_of :: "string \<Rightarrow> string" where
  "page_name_of p = take (length (basename p) - length (extname p)) (basename p)"

text \<open>One line of the front matter.\<close>

definition front_matter_line :: "string \<Rightarrow> (string \<times> string) list" where
  "front_matter_line l =
     (case index_of l '':'' of
        None \<Rightarrow> []
      | Some i \<Rightarrow> if 0 < i then [(trim (take i l), trim (drop (Suc i) l))] else [])"

text \<open>
  The split of a file into front matter and body: the properties and the text handed
  to \<open>parseBlocks\<close>.
\<close>

definition split_front_matter :: "string \<Rightarrow> (string \<times> string) list \<times> string" where
  "split_front_matter text =
     (if startsWith text ''---'' then
        (case index_of_from text ''---'' 3 of
           None \<Rightarrow> ([], text)
         | Some e \<Rightarrow>
             (assign_all [] (concat (map front_matter_line
                 (split_lines (trim (take (e - 3) (drop 3 text)))))),
              drop (e + 3) text))
      else ([], text))"

text \<open>\<open>/^(\d{4})_(\d{2})_(\d{2})$/\<close> and \<open>parseInt\<close> of the three groups joined.\<close>

definition digit_val :: "char \<Rightarrow> nat" where
  "digit_val c = of_char c - 48"

definition journal_day_of :: "string \<Rightarrow> nat option" where
  "journal_day_of s =
     (if length s = 10 \<and> list_all is_digit (take 4 s) \<and> s ! 4 = CHR ''_''
         \<and> list_all is_digit (take 2 (drop 5 s)) \<and> s ! 7 = CHR ''_''
         \<and> list_all is_digit (drop 8 s)
      then Some (foldl (\<lambda>n c. 10 * n + digit_val c) 0 (take 4 s @ take 2 (drop 5 s) @ drop 8 s))
      else None)"

definition readPageFile :: "uuid_gen \<Rightarrow> string \<Rightarrow> string \<Rightarrow> LogseqPage" where
  "readPageFile gen filePath text =
     (let (props, body) = split_front_matter text;
          pageName = page_name_of filePath;
          journal = str_includes filePath ''/journals/''
      in \<lparr> name = pageName,
           title = (case map_of props ''title'' of
                      None \<Rightarrow> pageName
                    | Some t \<Rightarrow> if t = [] then pageName else t),
           path = filePath,
           blocks = parseBlocks gen body,
           page_properties = props,
           isJournal = journal,
           journalDay = (if journal then journal_day_of pageName else None) \<rparr>)"

section \<open>The collection\<close>

text \<open>
  The note collection is the list of the files the directory walk yields, in the
  order of the walk (the files of the pages directory, then those of the journals
  directory), each with its full path and its text. A file that cannot be read is
  skipped by the source and is not part of the list. \<open>gens k\<close> is the source of
  fresh identities used while the \<open>k\<close>-th file is parsed.
\<close>

type_synonym filesystem = "(string \<times> string) list"

definition readFile :: "filesystem \<Rightarrow> string \<Rightarrow> string option" where
  "readFile fs p = map_of fs p"

definition writeFile :: "filesystem \<Rightarrow> string \<Rightarrow> string \<Rightarrow> filesystem" where
  "writeFile fs p text = map (\<lambda>(q, d). if q = p then (q, text) else (q, d)) fs"

fun readAll :: "(nat \<Rightarrow> uuid_gen) \<Rightarrow> nat \<Rightarrow> filesystem \<Rightarrow> LogseqPage list" where
  "readAll gens k [] = []"
| "readAll gens k ((p, text) # fs) = readPageFile (gens k) p text # readAll gens (Suc k) fs"

definition getAllPages :: "(nat \<Rightarrow> uuid_gen) \<Rightarrow> filesystem \<Rightarrow> LogseqPage list" where
  "getAllPages gens fs = readAll gens 0 fs"

section \<open>Deleting a block\<close>

text \<open>The lookup of the target block over all pages (the two nested loops).\<close>

definition uuid_matches :: "string \<Rightarrow> LogseqBlock \<Rightarrow> bool" where
  "uuid_matches blockUuid b \<longleftrightarrow>
     uuid b = blockUuid \<or> take 8 (uuid b) = blockUuid \<or> startsWith (uuid b) blockUuid"

fun find_target :: "string \<Rightarrow> LogseqPage list \<Rightarrow> (LogseqPage \<times> LogseqBlock) option" where
  "find_target blockUuid [] = None"
| "find_target blockUuid (pg # pgs) =
     (case find (uuid_matches blockUuid) (blocks pg) of
        Some b \<Rightarrow> Some (pg, b)
      | None \<Rightarrow> find_target blockUuid pgs)"

text \<open>The five search strategies.\<close>

definition has_bullet :: "string \<Rightarrow> bool" where
  "has_bullet l \<longleftrightarrow> str_includes l ''- '' \<or> str_includes l ''* '' \<or> str_includes l ''+ ''"

definition strategy1 :: "string \<Rightarrow> string \<Rightarrow> bool" where
  "strategy1 shortUuid l \<longleftrightarrow>
     startsWith (trim l) (''- '' @ shortUuid @ '' '')
     \<or> startsWith (trim l) (''* '' @ shortUuid @ '' '')
     \<or> startsWith (trim l) (''+ '' @ shortUuid @ '' '')"

definition strategy2 :: "string \<Rightarrow> string \<Rightarrow> bool" where
  "strategy2 shortUuid l \<longleftrightarrow> str_includes l shortUuid \<and> has_bullet l"

definition strategy3 :: "string \<Rightarrow> string \<Rightarrow> bool" where
  "strategy3 blockContent l \<longleftrightarrow> str_includes l blockContent \<and> has_bullet l"

text \<open>\<open>/^[a-f0-9]{8}\s+/\<close> and \<open>/^(TODO|...|IN-PROGRESS)\s+/\<close>, replaced by the empty string.\<close>

definition strip_short_uuid :: "string \<Rightarrow> string" where
  "strip_short_uuid s =
     (if 8 < length s \<and> list_all is_hex (take 8 s) \<and> is_space (s ! 8)
      then dropWhile is_space (drop 8 s) else s)"

fun strip_todo_from :: "todo list \<Rightarrow> string \<Rightarrow> string" where
  "strip_todo_from [] s = s"
| "strip_todo_from (k # ks) s =
     (if prefix (todo_text k) s then
        (case drop (length (todo_text k)) s of
           [] \<Rightarrow> strip_todo_from ks s
         | c # r \<Rightarrow> if is_space c then dropWhile is_space r else strip_todo_from ks s)
      else strip_todo_from ks s)"

definition clean_line :: "string \<Rightarrow> string" where
  "clean_line l =
     trim (replace_first cookie_ws_span
            (strip_todo_from todo_keywords (strip_short_uuid (strip_bullet (trim l)))))"

definition strategy4 :: "string \<Rightarrow> string \<Rightarrow> bool" where
  "strategy4 blockContent l \<longleftrightarrow>
     clean_line l = blockContent \<or> str_includes (clean_line l) blockContent"

definition strategy5 :: "string \<Rightarrow> string \<Rightarrow> bool" where
  "strategy5 blockContent l \<longleftrightarrow>
     (if has_bullet l
      then 3 < length (take 15 blockContent) \<and> str_includes l (take 15 blockContent)
      else False)"

definition searchStrategies :: "string \<Rightarrow> string \<Rightarrow> (string \<Rightarrow> bool) list" where
  "searchStrategies shortUuid blockContent =
     [strategy1 shortUuid, strategy2 shortUuid, strategy3 blockContent,
      strategy4 blockContent, strategy5 blockContent]"

text \<open>
  The search loop: the strategies in order, for each the lines in file order; the
  first hit ends both loops. The result is the index of the strategy and the index
  of the line.
\<close>

fun first_index :: "('a \<Rightarrow> bool) \<Rightarrow> 'a list \<Rightarrow> nat option" where
  "first_index P [] = None"
| "first_index P (x # xs) = (if P x then Some 0 else map_option Suc (first_index P xs))"

fun select_line :: "(string \<Rightarrow> bool) list \<Rightarrow> string list \<Rightarrow> (nat \<times> nat) option" where
  "select_line [] ls = None"
| "select_line (t # ts) ls =
     (case first_index t ls of
        Some i \<Rightarrow> Some (0, i)
      | None \<Rightarrow> map_option (\<lambda>(k, i). (Suc k, i)) (select_line ts ls))"

text \<open>\<open>lines.splice(i, 1)\<close>.\<close>

definition splice1 :: "nat \<Rightarrow> 'a list \<Rightarrow> 'a list" where
  "splice1 i ls = take i ls @ drop (Suc i) ls"

datatype delete_result =
    DeleteNotFound
  | DeleteSearchFailed
  | DeleteError
  | DeleteSuccess string nat nat

text \<open>
  The tool \<open>delete_block\<close>: the result and the collection after the call.
  \<open>DeleteNotFound\<close> (no block with the identity) and \<open>DeleteSearchFailed\<close> (no
  strategy matched a line) are the two not-found results. \<open>DeleteSuccess p k i\<close>
  reports the file, the index of the strategy that hit and the index of the removed
  line. A file that cannot be read raises, which the handler of the tool turns into
  an error result.
\<close>

definition delete_block :: "(nat \<Rightarrow> uuid_gen) \<Rightarrow> filesystem \<Rightarrow> string \<Rightarrow> delete_result \<times> filesystem" where
  "delete_block gens fs blockUuid =
     (case find_target blockUuid (getAllPages gens fs) of
        None \<Rightarrow> (DeleteNotFound, fs)
      | Some (targetPage, targetBlock) \<Rightarrow>
          (case readFile fs (path targetPage) of
             None \<Rightarrow> (DeleteError, fs)
           | Some fileContent \<Rightarrow>
               (case select_line (searchStrategies (take 8 (uuid targetBlock)) (content targetBlock))
                       (split_lines fileContent) of
                  None \<Rightarrow> (DeleteSearchFailed, fs)
                | Some (k, i) \<Rightarrow>
                    (DeleteSuccess (path targetPage) k i,
                     writeFile fs (path targetPage)
                       (join_lines (splice1 i (split_lines fileContent)))))))"

section \<open>Updating a block\<close>

definition lineIncludesUuid :: "string \<Rightarrow> string \<Rightarrow> bool" where
  "lineIncludesUuid l blockUuid \<longleftrightarrow>
     str_includes l blockUuid
     \<or> (8 \<le> length blockUuid \<and> str_includes l (take 8 blockUuid))
     \<or> (length blockUuid \<le> 8 \<and> str_includes l blockUuid)"

text \<open>
  \<open>/^(\s*- )(.*)$/\<close>: the first capture, when the line matches. The white space
  before the dash is the whole leading white space of the line, and the text behind
  \<open>- \<close> must be free of line terminators.
\<close>

definition dash_prefix :: "string \<Rightarrow> string option" where
  "dash_prefix l =
     (if prefix ''- '' (dropWhile is_space l) \<and> list_all dot_char (drop 2 (dropWhile is_space l))
      then Some (takeWhile is_space l @ ''- '') else None)"

text \<open>
  The inner loop over the lines of one file: the index of the rewritten line and the
  new lines, or \<open>None\<close> when no line was rewritten.
\<close>

fun update_lines :: "string \<Rightarrow> string \<Rightarrow> string list \<Rightarrow> (nat \<times> string list) option" where
  "update_lines blockUuid new [] = None"
| "update_lines blockUuid new (l # ls) =
     (case (if lineIncludesUuid l blockUuid then dash_prefix l else None) of
        Some pre \<Rightarrow> Some (0, (pre @ new) # ls)
      | None \<Rightarrow> map_option (\<lambda>(i, ls'). (Suc i, l # ls')) (update_lines blockUuid new ls))"

datatype update_result =
    UpdateNotFound
  | UpdateError
  | UpdateMissingArgument
  | UpdateSuccess string nat

text \<open>
  The outer loop over the pages; \<open>ps\<close> are the paths of the pages still to visit. A
  file that cannot be read raises, which the handler of the tool turns into the error
  result.
\<close>

fun update_pages :: "filesystem \<Rightarrow> string \<Rightarrow> string \<Rightarrow> string list \<Rightarrow> update_result \<times> filesystem" where
  "update_pages fs blockUuid new [] = (UpdateNotFound, fs)"
| "update_pages fs blockUuid new (p # ps) =
     (case readFile fs p of
        None \<Rightarrow> (UpdateError, fs)
      | Some fileContent \<Rightarrow>
          (case update_lines blockUuid new (split_lines fileContent) of
             Some (i, ls') \<Rightarrow> (UpdateSuccess p i, writeFile fs p (join_lines ls'))
           | None \<Rightarrow> update_pages fs blockUuid new ps))"

definition update_block :: "(nat \<Rightarrow> uuid_gen) \<Rightarrow> filesystem \<Rightarrow> string \<Rightarrow> string \<Rightarrow> update_result \<times> filesystem" where
  "update_block gens fs blockUuid new =
     update_pages fs blockUuid new (map path (getAllPages gens fs))"

text \<open>
  The tool \<open>update_block\<close> of the server of version 2.1.0. Its expression is
  \<open>/^(\s*-\s*)(.*)$/\<close>: the first capture is the leading white space, the dash and
  all the white space behind the dash; what follows that white space must be free of
  line terminators. A line is a candidate when it contains the first eight characters
  of the identity. A call without identity or without content is refused before any
  file is read.
\<close>

definition dash_prefix_v3 :: "string \<Rightarrow> string option" where
  "dash_prefix_v3 l =
     (case dropWhile is_space l of
        [] \<Rightarrow> None
      | c # r \<Rightarrow>
          if c = CHR ''-'' \<and> list_all dot_char (dropWhile is_space r)
          then Some (takeWhile is_space l @ CHR ''-'' # takeWhile is_space r) else None)"

fun update_lines_v3 :: "string \<Rightarrow> string \<Rightarrow> string list \<Rightarrow> (nat \<times> string list) option" where
  "update_lines_v3 blockUuid new [] = None"
| "update_lines_v3 blockUuid new (l # ls) =
     (case (if str_includes l (take 8 blockUuid) then dash_prefix_v3 l else None) of
        Some pre \<Rightarrow> Some (0, (pre @ new) # ls)
      | None \<Rightarrow> map_option (\<lambda>(i, ls'). (Suc i, l # ls')) (update_lines_v3 blockUuid new ls))"

fun update_pages_v3 :: "filesystem \<Rightarrow> string \<Rightarrow> string \<Rightarrow> string list \<Rightarrow> update_result \<times> filesystem" where
  "update_pages_v3 fs blockUuid new [] = (UpdateNotFound, fs)"
| "update_pages_v3 fs blockUuid new (p # ps) =
     (case readFile fs p of
        None \<Rightarrow> (UpdateError, fs)
      | Some fileContent \<Rightarrow>
          (case update_lines_v3 blockUuid new (split_lines fileContent) of
             Some (i, ls') \<Rightarrow> (UpdateSuccess p i, writeFile fs p (join_lines ls'))
           | None \<Rightarrow> update_pages_v3 fs blockUuid new ps))"

definition update_block_v3 :: "(nat \<Rightarrow> uuid_gen) \<Rightarrow> filesystem \<Rightarrow> string \<Rightarrow> string \<Rightarrow> update_result \<times> filesystem" where
  "update_block_v3 gens fs blockUuid new =
     (if blockUuid = [] \<or> new = [] then (UpdateMissingArgument, fs)
      else update_pages_v3 fs blockUuid new (map path (getAllPages gens fs)))"

section \<open>Search\<close>

text \<open>
  The query is escaped and compiled with the flags \<open>gi\<close>, so the expression matches
  the query literally, letters compared without regard to case. With the \<open>g\<close> flag
  the expression object carries \<open>lastIndex\<close> from one call of \<open>test\<close> to the next: a
  call searches from \<open>lastIndex\<close> on, a hit sets \<open>lastIndex\<close> behind the match, a
  miss resets it to zero.
\<close>

text \<open>
  The canonical form of a character under the \<open>i\<close> flag (without the \<open>u\<close> flag): the
  upper-case form when that is a single code unit and does not turn a character outside
  ASCII into an ASCII one. In the range 0 to 255 these are the letters \<open>a\<close> to \<open>z\<close> and
  the letters \<open>0xE0\<close> to \<open>0xFE\<close> except the division sign \<open>0xF7\<close>. The sharp s
  (\<open>0xDF\<close>) has an upper-case form of two code units and stays as it is; the micro sign
  (\<open>0xB5\<close>) and the y with diaeresis (\<open>0xFF\<close>) have canonical forms outside the range
  that no other character of the range shares, so within the range each of them equals
  only itself and is left as it is.
\<close>

definition latin1_lower :: string where
  "latin1_lower = [
      CHR 0xE0, CHR 0xE1, CHR 0xE2, CHR 0xE3, CHR 0xE4, CHR 0xE5, CHR 0xE6, CHR 0xE7,
      CHR 0xE8, CHR 0xE9, CHR 0xEA, CHR 0xEB, CHR 0xEC, CHR 0xED, CHR 0xEE, CHR 0xEF,
      CHR 0xF0, CHR 0xF1, CHR 0xF2, CHR 0xF3, CHR 0xF4, CHR 0xF5, CHR 0xF6, CHR 0xF8,
      CHR 0xF9, CHR 0xFA, CHR 0xFB, CHR 0xFC, CHR 0xFD, CHR 0xFE]"

definition latin1_upper :: string where
  "latin1_upper = [
      CHR 0xC0, CHR 0xC1, CHR 0xC2, CHR 0xC3, CHR 0xC4, CHR 0xC5, CHR 0xC6, CHR 0xC7,
      CHR 0xC8, CHR 0xC9, CHR 0xCA, CHR 0xCB, CHR 0xCC, CHR 0xCD, CHR 0xCE, CHR 0xCF,
      CHR 0xD0, CHR 0xD1, CHR 0xD2, CHR 0xD3, CHR 0xD4, CHR 0xD5, CHR 0xD6, CHR 0xD8,
      CHR 0xD9, CHR 0xDA, CHR 0xDB, CHR 0xDC, CHR 0xDD, CHR 0xDE]"

definition canon :: "char \<Rightarrow> char" where
  "canon c =
     (case map_of (zip (''abcdefghijklmnopqrstuvwxyz'' @ latin1_lower)
                       (''ABCDEFGHIJKLMNOPQRSTUVWXYZ'' @ latin1_upper)) c of
        Some u \<Rightarrow> u
      | None \<Rightarrow> c)"

definition prefix_ci :: "string \<Rightarrow> string \<Rightarrow> bool" where
  "prefix_ci q s = prefix (map canon q) (map canon s)"

fun find_ci :: "string \<Rightarrow> string \<Rightarrow> nat option" where
  "find_ci q [] = (if q = [] then Some 0 else None)"
| "find_ci q (c # cs) =
     (if prefix_ci q (c # cs) then Some 0 else map_option Suc (find_ci q cs))"

definition regex_test :: "string \<Rightarrow> nat \<Rightarrow> string \<Rightarrow> bool \<times> nat" where
  "regex_test q lastIndex s =
     (if length s < lastIndex then (False, 0)
      else (case find_ci q (drop lastIndex s) of
              Some k \<Rightarrow> (True, lastIndex + k + length q)
            | None \<Rightarrow> (False, 0)))"

datatype hit =
    PageHit string
  | BlockHit string string string "todo option"

text \<open>The loop over the blocks of one page; the state is \<open>lastIndex\<close>.\<close>

fun search_blocks :: "string \<Rightarrow> string \<Rightarrow> nat \<Rightarrow> LogseqBlock list \<Rightarrow> hit list \<times> nat" where
  "search_blocks q pageName li [] = ([], li)"
| "search_blocks q pageName li (b # bs) =
     (let (found, li1) = regex_test q li (content b);
          (hits, li2) = search_blocks q pageName li1 bs
      in ((if found then [BlockHit pageName (content b) (take 8 (uuid b)) (todo b)] else []) @ hits,
          li2))"

text \<open>
  The test of a page: \<open>test(page.name) || (page.title && test(page.title))\<close>; the
  second call is made only when the first one misses.
\<close>

definition page_test :: "string \<Rightarrow> nat \<Rightarrow> LogseqPage \<Rightarrow> bool \<times> nat" where
  "page_test q li pg =
     (let (found, li1) = regex_test q li (name pg)
      in if found then (True, li1)
         else if title pg = [] then (False, li1)
         else regex_test q li1 (title pg))"

fun search_pages :: "string \<Rightarrow> nat \<Rightarrow> LogseqPage list \<Rightarrow> hit list" where
  "search_pages q li [] = []"
| "search_pages q li (pg # pgs) =
     (let (found, li1) = page_test q li pg;
          (hits, li2) = search_blocks q (name pg) li1 (blocks pg)
      in (if found then [PageHit (name pg)] else []) @ hits @ search_pages q li2 pgs)"

definition search :: "(nat \<Rightarrow> uuid_gen) \<Rightarrow> filesystem \<Rightarrow> string \<Rightarrow> hit list" where
  "search gens fs query = search_pages query 0 (getAllPages gens fs)"

text \<open>What the tool is meant to compute: a string matches when the query occurs in it.\<close>

definition matches_ci :: "string \<Rightarrow> string \<Rightarrow> bool" where
  "matches_ci q s \<longleftrightarrow> find_ci q s \<noteq> None"

section \<open>Journal pages\<close>

text \<open>
  \<open>create_journal_page\<close>. The date arithmetic is that of the platform: \<open>dateStr\<close> is
  \<open>targetDate.toISOString().split('T')[0]\<close> and \<open>localeDate\<close> is
  \<open>targetDate.toLocaleDateString()\<close>. \<open>root\<close> is the directory of the graph, in
  normal form (POSIX separators, no separator at the end), so that \<open>path.join\<close> puts
  one separator between the parts. A new file is listed behind the files already
  there.
\<close>

definition path_join :: "string \<Rightarrow> string \<Rightarrow> string" where
  "path_join dir file = dir @ ''/'' @ file"

datatype create_result = AlreadyExists string | Created string

definition journal_path :: "string \<Rightarrow> string \<Rightarrow> string" where
  "journal_path root dateStr = path_join (path_join root ''journals'') (dateStr @ ''.md'')"

definition journal_text :: "string \<Rightarrow> string \<Rightarrow> string" where
  "journal_text dateStr localeDate =
     ''# '' @ dateStr @ [CHR 0x0A, CHR 0x0A] @ ''- Journal entry for '' @ localeDate
       @ [CHR 0x0A] @ ''- TODO Add your thoughts for today'' @ [CHR 0x0A]"

definition create_journal_page :: "string \<Rightarrow> filesystem \<Rightarrow> string \<Rightarrow> string \<Rightarrow> create_result \<times> filesystem" where
  "create_journal_page root fs dateStr localeDate =
     (if readFile fs (journal_path root dateStr) \<noteq> None
      then (AlreadyExists (journal_path root dateStr), fs)
      else (Created (journal_path root dateStr),
            fs @ [(journal_path root dateStr, journal_text dateStr localeDate)]))"

text \<open>
  The shapes of the date part of an ISO time stamp, as \<open>toISOString\<close> prints it:
  \<open>YYYY-MM-DD\<close> for the years 0 to 9999, and a sign with a six-digit year otherwise.
\<close>

definition is_iso_date :: "string \<Rightarrow> bool" where
  "is_iso_date s \<longleftrightarrow>
     length s = 10 \<and> list_all is_digit (take 4 s) \<and> s ! 4 = CHR ''-''
     \<and> list_all is_digit (take 2 (drop 5 s)) \<and> s ! 7 = CHR ''-''
     \<and> list_all is_digit (drop 8 s)"

definition is_expanded_iso_date :: "string \<Rightarrow> bool" where
  "is_expanded_iso_date s \<longleftrightarrow>
     length s = 13 \<and> (s ! 0 = CHR ''+'' \<or> s ! 0 = CHR ''-'')
     \<and> list_all is_digit (take 6 (drop 1 s)) \<and> s ! 7 = CHR ''-''
     \<and> list_all is_digit (take 2 (drop 8 s)) \<and> s ! 10 = CHR ''-''
     \<and> list_all is_digit (drop 11 s)"

definition iso_date_part :: "string \<Rightarrow> bool" where
  "iso_date_part s \<longleftrightarrow> is_iso_date s \<or> is_expanded_iso_date s"

section \<open>Writing a block as a line\<close>

text \<open>
  The line \<open>insert_block\<close> (version 4.0.0) appends for a new block: bullet, the first
  eight characters of the identity, then the task keyword and the priority cookie when
  they are given and not empty, then the content.
\<close>

definition insert_line :: "string \<Rightarrow> string option \<Rightarrow> string option \<Rightarrow> string \<Rightarrow> string" where
  "insert_line u td pr c =
     ''- '' @ take 8 u @ '' ''
     @ (case td of None \<Rightarrow> [] | Some t \<Rightarrow> if t = [] then [] else t @ '' '')
     @ (case pr of None \<Rightarrow> [] | Some p \<Rightarrow> if p = [] then [] else ''[#'' @ p @ ''] '')
     @ c"

text \<open>
  The line \<open>insertBlock\<close> (version 2.0.0) writes for a new block: bullet, the whole
  identity, task keyword, priority cookie, content, then the scheduling marker, the
  deadline marker and one token \<open> :key: value\<close> for every property. The two date
  arguments are the texts written between the angle brackets (the source computes them
  from the options with the date arithmetic of the platform) and are absent when the
  option is missing or empty; a task keyword or priority that is missing or empty
  writes nothing.
\<close>

definition insertBlock_line ::
  "string \<Rightarrow> string option \<Rightarrow> string option \<Rightarrow> string \<Rightarrow> string option \<Rightarrow> string option
     \<Rightarrow> (string \<times> string) list \<Rightarrow> string" where
  "insertBlock_line u td pr c sch dl props =
     ''- '' @ u @ '' ''
     @ (case td of None \<Rightarrow> [] | Some t \<Rightarrow> if t = [] then [] else t @ '' '')
     @ (case pr of None \<Rightarrow> [] | Some p \<Rightarrow> if p = [] then [] else ''[#'' @ p @ ''] '')
     @ c
     @ (case sch of None \<Rightarrow> [] | Some d \<Rightarrow> '' SCHEDULED: <'' @ d @ ''>'')
     @ (case dl of None \<Rightarrow> [] | Some d \<Rightarrow> '' DEADLINE: <'' @ d @ ''>'')
     @ concat (map (\<lambda>(k, v). '' :'' @ k @ '': '' @ v) props)"

text \<open>
  The line \<open>exportGraph\<close> (version 2.0.0) writes for a block of a page, in the
  markdown and in the org format alike: two spaces for every level, bullet, task
  keyword, priority cookie, content, then the scheduling marker and the deadline
  marker when the block has a date that is not empty. It writes neither the identity
  nor the properties. \<open>date_tokens\<close> are the two markers.
\<close>

definition date_tokens :: "LogseqBlock \<Rightarrow> string" where
  "date_tokens b =
     (case scheduled b of
        None \<Rightarrow> []
      | Some d \<Rightarrow> if d = [] then [] else '' SCHEDULED: <'' @ d @ ''>'')
     @ (case deadline b of
          None \<Rightarrow> []
        | Some d \<Rightarrow> if d = [] then [] else '' DEADLINE: <'' @ d @ ''>'')"

definition export_line :: "LogseqBlock \<Rightarrow> string" where
  "export_line b =
     replicate (2 * level b) (CHR '' '') @ ''- ''
     @ (case todo b of None \<Rightarrow> [] | Some k \<Rightarrow> todo_text k @ '' '')
     @ (case priority b of None \<Rightarrow> [] | Some p \<Rightarrow> ''[#'' @ priority_text p @ ''] '')
     @ content b
     @ date_tokens b"

section \<open>Auxiliary notions for the statements\<close>

text \<open>A line whose first character behind the indentation is \<open>*\<close> or \<open>+\<close>.\<close>

definition star_plus_bullet :: "string \<Rightarrow> bool" where
  "star_plus_bullet l =
     (case dropWhile is_space l of [] \<Rightarrow> False | c # r \<Rightarrow> c = CHR ''*'' \<or> c = CHR ''+'')"

text \<open>
  The text of a line that is left when bullet, identity, task keyword and the
  priority match have been taken off: the value of \<open>cleanLine\<close> from which the
  scheduling markers, properties and references are read.
\<close>

definition after_uuid :: "string \<Rightarrow> string" where
  "after_uuid s =
     (case fullUuidMatch s of
        Some (u, r) \<Rightarrow> r
      | None \<Rightarrow> (case shortUuidMatch s of Some (u, r) \<Rightarrow> r | None \<Rightarrow> s))"

definition after_todo :: "string \<Rightarrow> string" where
  "after_todo s = (case todoMatch s of Some (k, r) \<Rightarrow> r | None \<Rightarrow> s)"

definition after_priority :: "string \<Rightarrow> string" where
  "after_priority s = (case priorityMatch s of Some (p, r) \<Rightarrow> r | None \<Rightarrow> s)"

definition line_rest :: "string \<Rightarrow> string" where
  "line_rest l = after_priority (after_todo (after_uuid (strip_bullet (trim l))))"

text \<open>A string without white space at either end.\<close>

definition trimmed :: "string \<Rightarrow> bool" where
  "trimmed s =
     (case s of
        [] \<Rightarrow> True
      | c # cs \<Rightarrow> if is_space c then False else if is_space (last s) then False else True)"

text \<open>The contents of the blocks the lines of a text produce, in order.\<close>

definition block_contents :: "string list \<Rightarrow> string list" where
  "block_contents ls = map content (parseLines (\<lambda>i. []) 0 ls)"

text \<open>
  The number of characters that \<open>readPageFile\<close> takes off the front of a file as front
  matter before it hands the rest to the block parser.
\<close>

definition header_len :: "string \<Rightarrow> nat" where
  "header_len text =
     (if startsWith text ''---'' then
        (case index_of_from text ''---'' 3 of None \<Rightarrow> 0 | Some e \<Rightarrow> e + 3)
      else 0)"

text \<open>The contents of the blocks of the page that a file with the given text yields.\<close>

definition page_contents :: "string \<Rightarrow> string list" where
  "page_contents text = map content (blocks (readPageFile (\<lambda>i. []) [] text))"

text \<open>The fields of a block other than its identity and its level.\<close>

definition block_fields ::
  "LogseqBlock \<Rightarrow> todo option \<times> priority option \<times> string \<times> string option \<times> string option
     \<times> (string \<times> string) list \<times> string list" where
  "block_fields b =
     (todo b, priority b, content b, scheduled b, deadline b, properties b, refs b)"

text \<open>
  The fields that the parser reads from a line, the identity and the level left out;
  they do not depend on the fresh identities.
\<close>

definition line_fields ::
  "string \<Rightarrow> (todo option \<times> priority option \<times> string \<times> string option \<times> string option
     \<times> (string \<times> string) list \<times> string list) option" where
  "line_fields l = map_option block_fields (parseLine [] [] l)"

text \<open>
  A rewritten line \<open>l'\<close> keeps the indentation and the bullet marker \<open>mark\<close> of the line
  \<open>l\<close> and ends with the payload, and the parser reads from it the fields it reads from
  a bulleted line that holds the payload alone.
\<close>

definition keeps_bullet :: "string \<Rightarrow> string \<Rightarrow> string \<Rightarrow> string \<Rightarrow> bool" where
  "keeps_bullet mark l new l' \<longleftrightarrow>
     prefix (takeWhile is_space l @ mark) l \<and> prefix (takeWhile is_space l @ mark) l'
     \<and> suffix new l' \<and> line_fields l' = line_fields (''- '' @ new)"

text \<open>
  None of the four expressions that \<open>content_clean\<close> replaces by the empty string
  matches anywhere in the text.
\<close>

definition removal_idle :: "string \<Rightarrow> bool" where
  "removal_idle s \<longleftrightarrow>
     find_first (marker_at ''SCHEDULED:'') s = None \<and> find_first (marker_at ''DEADLINE:'') s = None
     \<and> find_first property_at s = None \<and> find_first cookie_span s = None"

text \<open>A text without line terminator, property token and priority cookie.\<close>

definition free_text :: "string \<Rightarrow> bool" where
  "free_text c \<longleftrightarrow>
     list_all dot_char c \<and> find_first property_at c = None \<and> find_first cookie_span c = None"

text \<open>
  A date text without line terminator, without the two marker keywords and without
  priority cookie.
\<close>

definition date_text :: "string \<Rightarrow> bool" where
  "date_text d \<longleftrightarrow>
     list_all dot_char d \<and> find_first cookie_span d = None
     \<and> (if str_includes d ''SCHEDULED:'' then False else True)
     \<and> (if str_includes d ''DEADLINE:'' then False else True)"

text \<open>The six fields of the first block are those of the second.\<close>

definition same_fields :: "LogseqBlock \<Rightarrow> LogseqBlock \<Rightarrow> bool" where
  "same_fields b' b \<longleftrightarrow>
     content b' = content b \<and> todo b' = todo b \<and> priority b' = priority b
     \<and> scheduled b' = scheduled b \<and> deadline b' = deadline b \<and> properties b' = properties b"

text \<open>A source of identities for the examples: every call yields the same identity.\<close>

definition sample_gens :: "nat \<Rightarrow> uuid_gen" where
  "sample_gens k i = ''00000000-0000-4000-8000-000000000000''"

section \<open>Properties of the block parser\<close>

text \<open>
  C4. Parsing the single body line \<open>- TODO [#A] Ship release SCHEDULED: <2025-01-10>\<close>
  produces exactly one block; its task state is \<open>TODO\<close>, its priority \<open>A\<close>, its
  scheduled date \<open>2025-01-10\<close> and its content \<open>Ship release\<close>. (The scheduling marker
  is also read as an inline property with the key \<open>SCHEDULED\<close>.)
\<close>

theorem parse_ship_release:
  "parseBlocks gen ''- TODO [#A] Ship release SCHEDULED: <2025-01-10>'' =
     [\<lparr> uuid = gen 0, content = ''Ship release'', level = 0, todo = Some TODO,
        scheduled = Some ''2025-01-10'', deadline = None, priority = Some PrioA,
        properties = [(''SCHEDULED'', ''<2025-01-10>'')], refs = [] \<rparr>]"
  by code_simp

section \<open>Lemmas on the scans and loops\<close>

lemma first_index_None: "first_index P xs = None \<longleftrightarrow> (\<forall>x\<in>set xs. \<not> P x)"
  by (induction xs) auto

lemma path_readPageFile [simp]: "path (readPageFile gen p text) = p"
  by (simp add: readPageFile_def Let_def split: prod.splits)

lemma update_lines_Some:
  "update_lines u new ls = Some (i, ls') \<Longrightarrow>
     i < length ls \<and> lineIncludesUuid (ls ! i) u
     \<and> (\<exists>pre. dash_prefix (ls ! i) = Some pre \<and> ls' = ls[i := pre @ new])
     \<and> (\<forall>j<i. lineIncludesUuid (ls ! j) u \<longrightarrow> dash_prefix (ls ! j) = None)"
proof (induction ls arbitrary: i ls')
  case Nil
  then show ?case by simp
next
  case (Cons l ls)
  show ?case
  proof (cases "if lineIncludesUuid l u then dash_prefix l else None")
    case (Some pre)
    with Cons.prems show ?thesis by (auto split: if_splits)
  next
    case None
    with Cons.prems obtain i' ls'' where r: "update_lines u new ls = Some (i', ls'')"
      "i = Suc i'" "ls' = l # ls''"
      by auto
    from Cons.IH[OF r(1)] None r(2,3) show ?thesis
      by (auto simp: nth_Cons split: nat.splits if_splits)
  qed
qed

lemma dash_prefix_Some:
  "dash_prefix l = Some pre \<Longrightarrow>
     pre = takeWhile is_space l @ ''- '' \<and> l = pre @ drop 2 (dropWhile is_space l)
     \<and> list_all dot_char (drop 2 (dropWhile is_space l))"
proof -
  assume a: "dash_prefix l = Some pre"
  then have p: "prefix ''- '' (dropWhile is_space l)" and pre: "pre = takeWhile is_space l @ ''- ''"
    and d: "list_all dot_char (drop 2 (dropWhile is_space l))"
    by (auto simp: dash_prefix_def split: if_splits)
  from p obtain r where r: "dropWhile is_space l = ''- '' @ r"
    by (auto simp: prefix_def)
  have "l = takeWhile is_space l @ dropWhile is_space l" by simp
  with r pre have "l = pre @ r" by simp
  moreover from r have "drop 2 (dropWhile is_space l) = r" by simp
  ultimately show ?thesis using pre d by simp
qed

lemma update_pages_success:
  "update_pages fs u new ps = (UpdateSuccess p i, fs') \<Longrightarrow>
     \<exists>text ls'. readFile fs p = Some text
       \<and> update_lines u new (split_lines text) = Some (i, ls')
       \<and> fs' = writeFile fs p (join_lines ls')"
  by (induction ps) (auto split: option.splits)

lemma snd_parse_uuid: "snd (parse_uuid f1 f2 s) = after_uuid s"
  by (simp add: parse_uuid_def after_uuid_def split: option.splits)

lemma parseLine_unfold:
  "parseLine f1 f2 l =
     (if trim l = [] \<or> startsWith (trim l) ''#'' \<or> clean_content (line_rest l) = [] then None
      else Some \<lparr> uuid = fst (parse_uuid f1 f2 (strip_bullet (trim l))),
                  content = clean_content (line_rest l),
                  level = length (takeWhile is_space l) div 2,
                  todo = map_option fst (todoMatch (after_uuid (strip_bullet (trim l)))),
                  scheduled = find_first (marker_at ''SCHEDULED:'') (line_rest l),
                  deadline = find_first (marker_at ''DEADLINE:'') (line_rest l),
                  priority = map_option fst (priorityMatch (after_todo (after_uuid (strip_bullet (trim l))))),
                  properties = assign_all [] (match_all property_at 0 (line_rest l)),
                  refs = line_refs (line_rest l) \<rparr>)"
  unfolding parseLine_def line_rest_def after_priority_def after_todo_def
  by (auto simp: Let_def case_prod_beta snd_parse_uuid split: option.splits)

lemma parseLine_content:
  "map_option content (parseLine f1 f2 l) = map_option content (parseLine g1 g2 l)"
  by (simp add: parseLine_unfold)

lemma parseLines_contents:
  "map content (parseLines g k ls) = block_contents ls"
proof -
  have "map content (parseLines g k ls) = map content (parseLines h j ls)" for h j
  proof (induction ls arbitrary: k j)
    case Nil
    then show ?case by simp
  next
    case (Cons l ls)
    have c: "map_option content (parseLine (g (2 * k)) (g (2 * k + 1)) l)
        = map_option content (parseLine (h (2 * j)) (h (2 * j + 1)) l)"
      by (rule parseLine_content)
    show ?case
    proof (cases "parseLine (g (2 * k)) (g (2 * k + 1)) l")
      case None
      with c have "parseLine (h (2 * j)) (h (2 * j + 1)) l = None" by simp
      with None Cons.IH[of "Suc k" "Suc j"] show ?thesis by simp
    next
      case (Some b)
      with c obtain b' where b': "parseLine (h (2 * j)) (h (2 * j + 1)) l = Some b'"
        "content b' = content b"
        by (cases "parseLine (h (2 * j)) (h (2 * j + 1)) l") auto
      with Some Cons.IH[of "Suc k" "Suc j"] show ?thesis by simp
    qed
  qed
  then show ?thesis by (simp add: block_contents_def)
qed

lemma block_contents_append:
  "block_contents (xs @ ys) = block_contents xs @ block_contents ys"
proof -
  have "map content (parseLines g k (xs @ ys))
      = map content (parseLines g k xs) @ map content (parseLines g (k + length xs) ys)" for g k
    by (induction xs arbitrary: k) (auto split: option.splits)
  from this[of "\<lambda>i. []" 0] show ?thesis
    by (simp add: parseLines_contents)
qed

lemma split_on_nonempty [simp]: "split_on d s \<noteq> []"
  by (induction s) (auto split: list.splits)

lemma split_on_no_sep: "l \<in> set (split_on d s) \<Longrightarrow> d \<notin> set l"
  by (induction s arbitrary: l) (auto split: if_splits list.splits)

lemma split_on_no_sep_line: "d \<notin> set l \<Longrightarrow> split_on d l = [l]"
  by (induction l) auto

lemma split_on_append_sep:
  "d \<notin> set l \<Longrightarrow> split_on d (l @ d # s) = l # split_on d s"
  by (induction l) auto

lemma split_join:
  "ls \<noteq> [] \<Longrightarrow> (\<forall>l\<in>set ls. CHR 0x0A \<notin> set l) \<Longrightarrow> split_lines (join_lines ls) = ls"
  unfolding split_lines_def
  by (induction ls rule: join_lines.induct) (auto simp: split_on_no_sep_line split_on_append_sep)

lemma trim_Nil [simp]: "trim [] = []"
  by (simp add: trim_def)

lemma block_contents_blank [simp]: "block_contents [[]] = []"
  by (simp add: block_contents_def parseLine_def)

lemma block_contents_split_join:
  assumes "\<forall>l\<in>set ls. CHR 0x0A \<notin> set l"
  shows "block_contents (split_lines (join_lines ls)) = block_contents ls"
proof (cases "ls = []")
  case True
  then show ?thesis by (simp add: split_lines_def) (simp add: block_contents_def)
next
  case False
  with assms show ?thesis by (simp add: split_join)
qed

lemma readFile_writeFile_same:
  "readFile fs p = Some c \<Longrightarrow> readFile (writeFile fs p c') p = Some c'"
  unfolding readFile_def writeFile_def
  by (induction fs) (auto split: if_splits)

lemma readFile_writeFile_other:
  "q \<noteq> p \<Longrightarrow> readFile (writeFile fs p c') q = readFile fs q"
  unfolding readFile_def writeFile_def
  by (induction fs) (auto split: if_splits)

lemma parseBlocks_contents: "map content (parseBlocks g s) = block_contents (split_lines s)"
  by (simp add: parseBlocks_def parseLines_contents)

subsection \<open>Strings, trimming and scans without a match\<close>

lemma str_includes_sublist: "str_includes s sub \<longleftrightarrow> sublist sub s"
  by (induction s) (auto simp: sublist_Cons_right)

lemma last_dropWhile: "dropWhile P xs \<noteq> [] \<Longrightarrow> last (dropWhile P xs) = last xs"
  by (induction xs) (auto split: if_splits)

lemma trimmed_iff: "trimmed s \<longleftrightarrow> s = [] \<or> (\<not> is_space (hd s) \<and> \<not> is_space (last s))"
  by (cases s) (auto simp: trimmed_def)

lemma trimmed_trim: "trimmed (trim s)"
proof (cases "trim s = []")
  case True
  then show ?thesis by (simp add: trimmed_iff)
next
  case False
  let ?t = "dropWhile is_space s"
  let ?u = "dropWhile is_space (rev ?t)"
  from False have u: "?u \<noteq> []" by (simp add: trim_def)
  then have "rev ?t \<noteq> []" by (metis dropWhile.simps(1))
  then have t: "?t \<noteq> []" by simp
  from u have "\<not> is_space (hd ?u)" by (rule hd_dropWhile)
  then have l: "\<not> is_space (last (trim s))"
    using u by (simp add: trim_def last_rev)
  from u have "last ?u = last (rev ?t)" by (rule last_dropWhile)
  also have "\<dots> = hd ?t" using t by (simp add: last_rev)
  finally have "hd (trim s) = hd ?t" using u by (simp add: trim_def hd_rev)
  moreover from t have "\<not> is_space (hd ?t)" by (rule hd_dropWhile)
  ultimately show ?thesis using l False by (simp add: trimmed_iff)
qed

lemma trimmed_trim_id: "trimmed s \<Longrightarrow> trim s = s"
proof (cases s)
  case Nil
  then show ?thesis by simp
next
  case (Cons c cs)
  assume "trimmed s"
  with Cons have h: "\<not> is_space c" and l: "\<not> is_space (last s)"
    by (auto simp: trimmed_def split: if_splits)
  from h Cons have d: "dropWhile is_space s = s" by simp
  from Cons obtain a as where r: "rev s = a # as" by (cases "rev s") auto
  from Cons have "hd (rev s) = last s" by (simp add: hd_rev)
  with r l have "\<not> is_space a" by simp
  then have "dropWhile is_space (a # as) = a # as" by simp
  with r have "dropWhile is_space (rev s) = rev s" by simp
  with d show ?thesis by (simp add: trim_def)
qed

lemma trimmed_tail: "trimmed s \<Longrightarrow> trimmed (dropWhile is_space (drop n s))"
proof (cases "dropWhile is_space (drop n s) = []")
  case True
  then show ?thesis by (simp add: trimmed_iff)
next
  case False
  assume s: "trimmed s"
  from False have d: "drop n s \<noteq> []" by auto
  then have ne: "s \<noteq> []" by auto
  from False have "last (dropWhile is_space (drop n s)) = last (drop n s)"
    by (rule last_dropWhile)
  also from d have "\<dots> = last s" by (simp add: last_drop)
  finally have "\<not> is_space (last (dropWhile is_space (drop n s)))"
    using s ne by (simp add: trimmed_iff)
  moreover from False have "\<not> is_space (hd (dropWhile is_space (drop n s)))"
    by (rule hd_dropWhile)
  ultimately show ?thesis by (simp add: trimmed_iff)
qed

lemma suffix_tail: "suffix (dropWhile is_space (drop n s)) s"
  by (meson suffix_dropWhile suffix_drop suffix_order.trans)

lemma find_first_NoneD:
  "find_first m s = None \<Longrightarrow> suffix t s \<Longrightarrow> t \<noteq> [] \<Longrightarrow> m t = None"
proof (induction s)
  case Nil
  then show ?case by simp
next
  case (Cons c cs)
  from Cons.prems(1) have a: "m (c # cs) = None" and b: "find_first m cs = None"
    by (auto split: option.splits)
  from Cons.prems(2) have "t = c # cs \<or> suffix t cs"
    by (simp add: suffix_Cons)
  with a b Cons show ?case by auto
qed

lemma cookie_at_Nil [simp]: "cookie_at [] = None"
  by (simp add: cookie_at_def)

subsection \<open>The stages of the parser\<close>

lemma ws_rest_Some:
  "ws_rest s = Some r \<Longrightarrow> r = dropWhile is_space s \<and> list_all dot_char r"
  by (cases s) (auto simp: ws_rest_def split: if_splits)

lemma todoMatch_from_Some:
  "todoMatch_from ks s = Some (k, r) \<Longrightarrow>
     prefix (todo_text k) s \<and> ws_rest (drop (length (todo_text k)) s) = Some r"
  by (induction ks) (auto split: if_splits option.splits)

text \<open>Every stage of the parser hands on either its input or a tail of it.\<close>

lemma strip_bullet_tail:
  "strip_bullet s = s \<or> (\<exists>n. strip_bullet s = dropWhile is_space (drop n s))"
proof (cases s)
  case Nil
  then show ?thesis by (simp add: strip_bullet_def)
next
  case (Cons c cs)
  then have "dropWhile is_space cs = dropWhile is_space (drop 1 s)" by simp
  then have "\<exists>n. dropWhile is_space cs = dropWhile is_space (drop n s)" by (rule exI)
  with Cons show ?thesis unfolding strip_bullet_def by simp
qed

lemma ws_rest_tail:
  "ws_rest (drop n s) = Some r \<Longrightarrow> r = dropWhile is_space (drop n s)"
  by (simp add: ws_rest_Some)

lemma after_uuid_tail:
  "after_uuid s = s \<or> (\<exists>n. after_uuid s = dropWhile is_space (drop n s))"
  unfolding after_uuid_def fullUuidMatch_def shortUuidMatch_def
  by (auto split: option.splits if_splits dest: ws_rest_tail)

lemma after_todo_tail:
  "after_todo s = s \<or> (\<exists>n. after_todo s = dropWhile is_space (drop n s))"
  unfolding after_todo_def todoMatch_def
  by (auto split: option.splits dest!: todoMatch_from_Some ws_rest_tail)

lemma stage_trimmed:
  "s' = s \<or> (\<exists>n. s' = dropWhile is_space (drop n s)) \<Longrightarrow> trimmed s \<Longrightarrow> trimmed s'"
  by (auto simp: trimmed_tail)

lemma stage_suffix:
  "s' = s \<or> (\<exists>n. s' = dropWhile is_space (drop n s)) \<Longrightarrow> suffix s' s"
  by (auto simp: suffix_tail)

lemma before_priority:
  "trimmed (after_todo (after_uuid (strip_bullet (trim l))))"
  "suffix (after_todo (after_uuid (strip_bullet (trim l)))) (trim l)"
proof -
  let ?a = "strip_bullet (trim l)"
  let ?b = "after_uuid ?a"
  let ?c = "after_todo ?b"
  have "trimmed ?a" by (rule stage_trimmed[OF strip_bullet_tail trimmed_trim])
  then have "trimmed ?b" by (rule stage_trimmed[OF after_uuid_tail])
  then show "trimmed ?c" by (rule stage_trimmed[OF after_todo_tail])
  have "suffix ?c ?b" by (rule stage_suffix[OF after_todo_tail])
  also have "suffix ?b ?a" by (rule stage_suffix[OF after_uuid_tail])
  also have "suffix ?a (trim l)" by (rule stage_suffix[OF strip_bullet_tail])
  finally show "suffix ?c (trim l)" .
qed

lemma sublist_trim: "sublist (trim l) l"
proof -
  have "suffix (dropWhile is_space (rev (dropWhile is_space l))) (rev (dropWhile is_space l))"
    by (rule suffix_dropWhile)
  then have "prefix (trim l) (dropWhile is_space l)"
    by (simp add: trim_def suffix_to_prefix)
  then have "sublist (trim l) (dropWhile is_space l)" by (rule prefix_imp_sublist)
  moreover have "sublist (dropWhile is_space l) l"
    by (rule suffix_imp_sublist) (rule suffix_dropWhile)
  ultimately show ?thesis by (rule sublist_order.order_trans)
qed

lemma dropWhile_space_id: "s \<noteq> [] \<Longrightarrow> \<not> is_space (hd s) \<Longrightarrow> dropWhile is_space s = s"
  by (cases s) auto

lemma is_hex_not_space: "is_hex c \<Longrightarrow> \<not> is_space c"
  by (auto simp: is_hex_def is_space_def)

lemma todoMatch_keyword:
  assumes "X \<noteq> []" "\<not> is_space (hd X)" "list_all dot_char X"
  shows "todoMatch (todo_text k @ CHR '' '' # X) = Some (k, X)"
proof -
  from assms have "dropWhile is_space X = X" by (simp add: dropWhile_space_id)
  with assms(3) show ?thesis
    by (cases k) (simp_all add: todoMatch_def todo_keywords_def ws_rest_def is_space_def)
qed

lemma todoMatch_bracket: "todoMatch (CHR ''['' # X) = None"
  by (simp add: todoMatch_def todo_keywords_def)

lemma priorityMatch_cookie:
  assumes "X \<noteq> []" "\<not> is_space (hd X)" "list_all dot_char X"
  shows "priorityMatch (CHR ''['' # CHR ''#'' # priority_text p @ CHR '']'' # CHR '' '' # X) = Some (p, X)"
proof -
  from assms have "dropWhile is_space X = X" by (simp add: dropWhile_space_id)
  with assms(3) show ?thesis
    by (cases p) (simp_all add: cookie_at_def priority_of_char_def is_space_def)
qed

lemma parseLine_content_trimmed:
  "parseLine fresh1 fresh2 l = Some b \<Longrightarrow> content b \<noteq> [] \<and> trimmed (content b)"
  by (auto simp: parseLine_unfold clean_content_def trimmed_trim split: if_splits)

lemma after_uuid_short:
  assumes "length u = 8" "list_all is_hex u" "R \<noteq> []" "\<not> is_space (hd R)" "list_all dot_char R"
  shows "after_uuid (u @ CHR '' '' # R) = R"
    and "fst (parse_uuid g1 g2 (u @ CHR '' '' # R)) = u @ drop 8 g2"
proof -
  have "take 36 (u @ CHR '' '' # R) = u @ CHR '' '' # take 27 R"
    using assms(1) by simp
  moreover have "\<not> is_uuid_char (CHR '' '')"
    by (simp add: is_uuid_char_def is_hex_def)
  ultimately have "\<not> list_all is_uuid_char (take 36 (u @ CHR '' '' # R))"
    by (simp del: take_append)
  then have f: "fullUuidMatch (u @ CHR '' '' # R) = None"
    unfolding fullUuidMatch_def by (simp del: take_append append.simps)
  from assms have "dropWhile is_space R = R" by (simp add: dropWhile_space_id)
  then have "ws_rest (CHR '' '' # R) = Some R"
    using assms(5) by (simp add: ws_rest_def is_space_def)
  then have s: "shortUuidMatch (u @ CHR '' '' # R) = Some (u, R)"
    using assms(1,2) by (simp add: shortUuidMatch_def)
  show "after_uuid (u @ CHR '' '' # R) = R" by (simp add: after_uuid_def f s)
  show "fst (parse_uuid g1 g2 (u @ CHR '' '' # R)) = u @ drop 8 g2"
    by (simp add: parse_uuid_def f s)
qed

lemma todo_text_props:
  "todo_text k \<noteq> []" "\<not> is_space (hd (todo_text k))" "list_all dot_char (todo_text k)"
  by (cases k; simp add: is_space_def dot_char_def is_line_term_def)+

lemma priority_text_props:
  "priority_text q \<noteq> []" "list_all dot_char (priority_text q)"
  by (cases q; simp add: dot_char_def is_line_term_def)+

subsection \<open>Paths and journal names\<close>

lemma is_digit_date_char: "is_digit c \<Longrightarrow> c \<noteq> CHR ''/'' \<and> c \<noteq> CHR ''.'' \<and> c \<noteq> CHR ''_''"
  by (auto simp: is_digit_def)

lemma iso_date_part_chars:
  assumes "iso_date_part d"
  shows "CHR ''/'' \<notin> set d" and "CHR ''.'' \<notin> set d" and "CHR ''_'' \<notin> set d" and "d \<noteq> []"
proof -
  from assms have "CHR ''/'' \<notin> set d \<and> CHR ''.'' \<notin> set d \<and> CHR ''_'' \<notin> set d \<and> d \<noteq> []"
    unfolding iso_date_part_def
  proof
    assume a: "is_iso_date d"
    then have "length d = 10" by (simp add: is_iso_date_def)
    then obtain c0 c1 c2 c3 c4 c5 c6 c7 c8 c9 where
      d: "d = [c0, c1, c2, c3, c4, c5, c6, c7, c8, c9]"
      by (auto simp: numeral_eq_Suc length_Suc_conv)
    from a d have "is_digit c0" "is_digit c1" "is_digit c2" "is_digit c3" "c4 = CHR ''-''"
      "is_digit c5" "is_digit c6" "c7 = CHR ''-''" "is_digit c8" "is_digit c9"
      by (simp_all add: is_iso_date_def)
    with d show ?thesis by (auto dest: is_digit_date_char)
  next
    assume a: "is_expanded_iso_date d"
    then have "length d = 13" by (simp add: is_expanded_iso_date_def)
    then obtain c0 c1 c2 c3 c4 c5 c6 c7 c8 c9 c10 c11 c12 where
      d: "d = [c0, c1, c2, c3, c4, c5, c6, c7, c8, c9, c10, c11, c12]"
      by (auto simp: numeral_eq_Suc length_Suc_conv)
    from a d have "c0 = CHR ''+'' \<or> c0 = CHR ''-''" "is_digit c1" "is_digit c2" "is_digit c3"
      "is_digit c4" "is_digit c5" "is_digit c6" "c7 = CHR ''-''" "is_digit c8" "is_digit c9"
      "c10 = CHR ''-''" "is_digit c11" "is_digit c12"
      by (simp_all add: is_expanded_iso_date_def)
    with d show ?thesis by (auto dest: is_digit_date_char)
  qed
  then show "CHR ''/'' \<notin> set d" and "CHR ''.'' \<notin> set d" and "CHR ''_'' \<notin> set d" and "d \<noteq> []"
    by simp_all
qed

lemma no_underscore_no_journal_day: "CHR ''_'' \<notin> set d \<Longrightarrow> journal_day_of d = None"
proof -
  assume a: "CHR ''_'' \<notin> set d"
  have "d ! 4 \<noteq> CHR ''_''" if "length d = 10"
  proof -
    from that have "d ! 4 \<in> set d" by simp
    with a show ?thesis by auto
  qed
  then show ?thesis by (auto simp: journal_day_of_def)
qed

lemma basename_journal:
  "CHR ''/'' \<notin> set f \<Longrightarrow> basename (dir @ CHR ''/'' # f) = f"
proof -
  assume a: "CHR ''/'' \<notin> set f"
  have "takeWhile (\<lambda>c. c \<noteq> CHR ''/'') (rev f @ CHR ''/'' # rev dir) = rev f"
    using a by (auto simp: takeWhile_tail)
  then show ?thesis by (simp add: basename_def)
qed

lemma page_name_md:
  assumes "CHR ''/'' \<notin> set d" "CHR ''.'' \<notin> set d" "d \<noteq> []"
  shows "page_name_of (dir @ CHR ''/'' # d @ ''.md'') = d"
proof -
  from assms have b: "basename (dir @ CHR ''/'' # d @ ''.md'') = d @ ''.md''"
    by (intro basename_journal) simp
  have "takeWhile (\<lambda>c. c \<noteq> CHR ''.'') (CHR ''d'' # CHR ''m'' # CHR ''.'' # rev d) = ''dm''"
    by simp
  then have t: "rev (takeWhile (\<lambda>c. c \<noteq> CHR ''.'') (rev (d @ ''.md''))) = ''md''"
    by simp
  have e: "extname (dir @ CHR ''/'' # d @ ''.md'') = ''.md''"
    unfolding extname_def b Let_def t using assms(3) by (cases d) simp_all
  show ?thesis unfolding page_name_of_def b e by simp
qed

subsection \<open>Selecting and removing a line\<close>

lemma first_index_SomeI:
  "i < length xs \<Longrightarrow> P (xs ! i) \<Longrightarrow> (\<forall>j<i. \<not> P (xs ! j)) \<Longrightarrow> first_index P xs = Some i"
proof (induction xs arbitrary: i)
  case Nil
  then show ?case by simp
next
  case (Cons x xs)
  show ?case
  proof (cases i)
    case 0
    with Cons.prems show ?thesis by simp
  next
    case (Suc n)
    with Cons.prems have "\<not> P x" by auto
    moreover from Suc Cons.prems have "first_index P xs = Some n"
      by (intro Cons.IH) auto
    ultimately show ?thesis using Suc by simp
  qed
qed

lemma select_line_SomeI:
  "k < length ts \<Longrightarrow> first_index (ts ! k) ls = Some i
     \<Longrightarrow> (\<forall>k'<k. \<forall>l\<in>set ls. \<not> (ts ! k') l) \<Longrightarrow> select_line ts ls = Some (k, i)"
proof (induction ts arbitrary: k)
  case Nil
  then show ?case by simp
next
  case (Cons t ts)
  show ?case
  proof (cases k)
    case 0
    with Cons.prems show ?thesis by simp
  next
    case (Suc n)
    with Cons.prems have "\<forall>l\<in>set ls. \<not> t l" by auto
    then have f: "first_index t ls = None" by (simp add: first_index_None)
    from Suc Cons.prems have "select_line ts ls = Some (n, i)"
      by (intro Cons.IH) auto
    with f Suc show ?thesis by simp
  qed
qed

lemma join_split: "join_lines (split_on (CHR 0x0A) s) = s"
proof (induction s)
  case Nil
  then show ?case by simp
next
  case (Cons c cs)
  obtain l ls where sp: "split_on (CHR 0x0A) cs = l # ls"
    by (cases "split_on (CHR 0x0A) cs") auto
  with Cons show ?case by (cases ls) auto
qed

lemma join_lines_append:
  "xs \<noteq> [] \<Longrightarrow> ys \<noteq> [] \<Longrightarrow> join_lines (xs @ ys) = join_lines xs @ CHR 0x0A # join_lines ys"
  by (induction xs rule: join_lines.induct) (auto simp: neq_Nil_conv)

lemma split_on_append:
  "split_on d (xs @ d # ys) = split_on d xs @ split_on d ys"
proof (induction xs)
  case Nil
  then show ?case by simp
next
  case (Cons c cs)
  obtain l ls where sp: "split_on d cs = l # ls"
    by (cases "split_on d cs") auto
  with Cons show ?case by auto
qed

lemma body_header_len: "snd (split_front_matter s) = drop (header_len s) s"
  by (simp add: split_front_matter_def header_len_def split: option.splits)

lemma page_contents_header:
  "page_contents s = block_contents (split_lines (drop (header_len s) s))"
  by (simp add: page_contents_def readPageFile_def Let_def parseBlocks_contents
      body_header_len [symmetric] split: prod.splits)

lemma page_contents_gen:
  "map content (blocks (readPageFile g p s)) = page_contents s"
  by (simp add: page_contents_def readPageFile_def Let_def parseBlocks_contents split: prod.splits)

lemma removed_line_contents:
  assumes i: "i < length (split_lines s)"
    and h: "header_len (join_lines (take i (split_lines s) @ drop (Suc i) (split_lines s))) = header_len s"
    and b: "header_len s \<le> length (join_lines (take i (split_lines s)))"
  shows "\<exists>A B. page_contents s = A @ block_contents [split_lines s ! i] @ B
           \<and> page_contents (join_lines (take i (split_lines s) @ drop (Suc i) (split_lines s))) = A @ B"
proof -
  let ?ls = "split_lines s"
  let ?l = "?ls ! i"
  let ?rest = "drop (Suc i) ?ls"
  let ?s' = "join_lines (take i ?ls @ ?rest)"
  let ?h = "header_len s"
  have nl: "\<forall>l\<in>set ?ls. CHR 0x0A \<notin> set l"
    unfolding split_lines_def by (auto dest: split_on_no_sep)
  have s: "s = join_lines ?ls" by (simp add: split_lines_def join_split)
  have dec: "?ls = take i ?ls @ ?l # ?rest" using i by (simp add: id_take_nth_drop)
  have nl2: "\<forall>l\<in>set (?l # ?rest). CHR 0x0A \<notin> set l"
    using nl dec by (metis in_set_conv_decomp set_ConsD Un_iff set_append list.set_intros)
  have nl3: "\<forall>l\<in>set ?rest. CHR 0x0A \<notin> set l" using nl2 by simp
  show ?thesis
  proof (cases i)
    case 0
    then have h0: "?h = 0" using b by simp
    have "page_contents s = block_contents ?ls"
      by (simp add: page_contents_header h0)
    also have "\<dots> = block_contents ([?l] @ ?rest)" using dec 0 by simp
    also have "\<dots> = block_contents [?l] @ block_contents ?rest" by (rule block_contents_append)
    finally have 1: "page_contents s = [] @ block_contents [?l] @ block_contents ?rest" by simp
    have "page_contents ?s' = block_contents (split_lines ?s')"
      using h h0 by (simp add: page_contents_header)
    also have "\<dots> = block_contents ?rest"
      using 0 block_contents_split_join[OF nl3] by simp
    finally have 2: "page_contents ?s' = [] @ block_contents ?rest" by simp
    from 1 2 show ?thesis by blast
  next
    case (Suc n)
    let ?A0 = "join_lines (take i ?ls)"
    have tne: "take i ?ls \<noteq> []" using Suc i by auto
    have "s = join_lines (take i ?ls @ (?l # ?rest))" using s dec by simp
    also have "\<dots> = ?A0 @ CHR 0x0A # join_lines (?l # ?rest)"
      by (rule join_lines_append[OF tne]) simp
    finally have s2: "s = ?A0 @ CHR 0x0A # join_lines (?l # ?rest)" .
    have "drop ?h s = drop ?h (?A0 @ CHR 0x0A # join_lines (?l # ?rest))" using s2 by simp
    also have "\<dots> = drop ?h ?A0 @ CHR 0x0A # join_lines (?l # ?rest)" using b by simp
    finally have body: "drop ?h s = drop ?h ?A0 @ CHR 0x0A # join_lines (?l # ?rest)" .
    have "split_lines (join_lines (?l # ?rest)) = ?l # ?rest"
      by (rule split_join[OF _ nl2]) simp
    then have "split_lines (drop ?h s) = split_lines (drop ?h ?A0) @ (?l # ?rest)"
      unfolding body by (simp add: split_lines_def split_on_append)
    then have "page_contents s = block_contents (split_lines (drop ?h ?A0) @ ([?l] @ ?rest))"
      by (simp add: page_contents_header)
    also have "\<dots> = block_contents (split_lines (drop ?h ?A0)) @ block_contents ([?l] @ ?rest)"
      by (rule block_contents_append)
    also have "block_contents ([?l] @ ?rest) = block_contents [?l] @ block_contents ?rest"
      by (rule block_contents_append)
    finally have 1: "page_contents s
        = block_contents (split_lines (drop ?h ?A0)) @ block_contents [?l] @ block_contents ?rest" .
    have 2: "page_contents ?s' = block_contents (split_lines (drop ?h ?A0)) @ block_contents ?rest"
    proof (cases "?rest = []")
      case True
      then show ?thesis using h by (simp add: page_contents_header block_contents_def)
    next
      case False
      have "?s' = ?A0 @ CHR 0x0A # join_lines ?rest"
        by (rule join_lines_append[OF tne False])
      then have "drop ?h ?s' = drop ?h ?A0 @ CHR 0x0A # join_lines ?rest" using b by simp
      moreover have "split_lines (join_lines ?rest) = ?rest"
        by (rule split_join[OF False nl3])
      ultimately have "split_lines (drop ?h ?s') = split_lines (drop ?h ?A0) @ ?rest"
        by (simp add: split_lines_def split_on_append)
      then show ?thesis using h by (simp add: page_contents_header block_contents_append)
    qed
    from 1 2 show ?thesis by blast
  qed
qed

subsection \<open>Rewriting a line\<close>

lemma update_lines_v3_Some:
  "update_lines_v3 u new ls = Some (i, ls') \<Longrightarrow>
     i < length ls \<and> (\<exists>pre. dash_prefix_v3 (ls ! i) = Some pre \<and> ls' = ls[i := pre @ new])"
proof (induction ls arbitrary: i ls')
  case Nil
  then show ?case by simp
next
  case (Cons l ls)
  show ?case
  proof (cases "if str_includes l (take 8 u) then dash_prefix_v3 l else None")
    case (Some pre)
    with Cons.prems show ?thesis by (auto split: if_splits)
  next
    case None
    with Cons.prems obtain j ms where r: "update_lines_v3 u new ls = Some (j, ms)"
      and i: "i = Suc j" and ls': "ls' = l # ms"
      by auto
    from Cons.IH[OF r] i ls' show ?thesis by auto
  qed
qed

lemma update_pages_v3_success:
  "update_pages_v3 fs u new ps = (UpdateSuccess p i, fs') \<Longrightarrow>
     \<exists>text ls'. readFile fs p = Some text
       \<and> update_lines_v3 u new (split_lines text) = Some (i, ls')
       \<and> fs' = writeFile fs p (join_lines ls')"
  by (induction ps) (auto split: option.splits)

lemma dash_prefix_v3_Some:
  "dash_prefix_v3 l = Some pre \<Longrightarrow>
     \<exists>w. pre = takeWhile is_space l @ CHR ''-'' # w \<and> list_all is_space w \<and> prefix pre l"
proof -
  assume a: "dash_prefix_v3 l = Some pre"
  then obtain r where d: "dropWhile is_space l = CHR ''-'' # r"
    and pre: "pre = takeWhile is_space l @ CHR ''-'' # takeWhile is_space r"
    by (auto simp: dash_prefix_v3_def split: list.splits if_splits)
  have "l = takeWhile is_space l @ CHR ''-'' # takeWhile is_space r @ dropWhile is_space r"
    by (metis d takeWhile_dropWhile_id)
  then have "prefix pre l" unfolding pre by (metis append.assoc append_Cons prefixI)
  moreover have "list_all is_space (takeWhile is_space r)"
    by (simp add: list_all_iff) (meson set_takeWhileD)
  ultimately show ?thesis using pre by blast
qed

lemma line_fields_gen: "map_option block_fields (parseLine f1 f2 l) = line_fields l"
  by (simp add: line_fields_def parseLine_unfold block_fields_def)

lemma line_fields_cong:
  assumes "trim l1 \<noteq> []" "trim l2 \<noteq> []" "\<not> startsWith (trim l1) ''#''" "\<not> startsWith (trim l2) ''#''"
    and "strip_bullet (trim l1) = strip_bullet (trim l2)"
  shows "line_fields l1 = line_fields l2"
  using assms by (simp add: line_fields_def parseLine_unfold block_fields_def line_rest_def)

lemma trim_dash:
  assumes "list_all is_space ind"
  shows "trim (ind @ CHR ''-'' # z) = CHR ''-'' # rev (dropWhile is_space (rev z))"
proof -
  have m: "\<not> is_space (CHR ''-'')" by (simp add: is_space_def)
  from assms have "dropWhile is_space (ind @ CHR ''-'' # z) = CHR ''-'' # z"
    using m by (simp add: list_all_iff dropWhile_append2)
  moreover have "dropWhile is_space (rev z @ [CHR ''-'']) = dropWhile is_space (rev z) @ [CHR ''-'']"
    using m by (simp add: dropWhile_append)
  ultimately show ?thesis by (simp add: trim_def)
qed

lemma core_ws:
  assumes "list_all is_space w"
  shows "dropWhile is_space (rev (dropWhile is_space (rev (w @ x))))
       = dropWhile is_space (rev (dropWhile is_space (rev x)))"
proof (cases "\<forall>c\<in>set x. is_space c")
  case True
  with assms have a: "dropWhile is_space (rev (w @ x)) = []"
    and b: "dropWhile is_space (rev x) = []"
    by (auto simp: list_all_iff)
  show ?thesis by (simp only: a b)
next
  case False
  then obtain c where "c \<in> set (rev x)" "\<not> is_space c" by auto
  then have "dropWhile is_space (rev x @ rev w) = dropWhile is_space (rev x) @ rev w"
    by (rule dropWhile_append1)
  then show ?thesis using assms by (simp add: list_all_iff dropWhile_append2)
qed

lemma line_fields_dash:
  assumes "list_all is_space ind" "list_all is_space w"
  shows "line_fields (ind @ CHR ''-'' # w @ new) = line_fields (''- '' @ new)"
proof (rule line_fields_cong)
  have t1: "trim (ind @ CHR ''-'' # w @ new) = CHR ''-'' # rev (dropWhile is_space (rev (w @ new)))"
    by (rule trim_dash[OF assms(1)])
  have t2: "trim (''- '' @ new) = CHR ''-'' # rev (dropWhile is_space (rev ('' '' @ new)))"
    using trim_dash[of "[]" "'' '' @ new"] by simp
  show "trim (ind @ CHR ''-'' # w @ new) \<noteq> []" "trim (''- '' @ new) \<noteq> []"
    "\<not> startsWith (trim (ind @ CHR ''-'' # w @ new)) ''#''" "\<not> startsWith (trim (''- '' @ new)) ''#''"
    unfolding t1 t2 by (simp_all add: startsWith_def)
  have "strip_bullet (trim (ind @ CHR ''-'' # w @ new))
      = dropWhile is_space (rev (dropWhile is_space (rev (w @ new))))"
    unfolding t1 by (simp add: strip_bullet_def is_bullet_def)
  also have "\<dots> = dropWhile is_space (rev (dropWhile is_space (rev new)))"
    by (rule core_ws[OF assms(2)])
  also have "\<dots> = dropWhile is_space (rev (dropWhile is_space (rev ('' '' @ new))))"
    by (rule core_ws[symmetric]) (simp add: is_space_def)
  also have "\<dots> = strip_bullet (trim (''- '' @ new))"
    unfolding t2 by (simp add: strip_bullet_def is_bullet_def)
  finally show "strip_bullet (trim (ind @ CHR ''-'' # w @ new)) = strip_bullet (trim (''- '' @ new))" .
qed

lemma takeWhile_space_all: "list_all is_space (takeWhile is_space l)"
  by (simp add: list_all_iff) (meson set_takeWhileD)

lemma keeps_bullet_dash:
  assumes "dash_prefix l = Some pre"
  shows "keeps_bullet ''- '' l new (pre @ new)"
proof -
  have pre: "pre = takeWhile is_space l @ ''- ''"
    and l: "l = pre @ drop 2 (dropWhile is_space l)"
    using dash_prefix_Some[OF assms] by blast+
  have "prefix pre l" by (metis l prefixI)
  moreover have "line_fields (pre @ new) = line_fields (''- '' @ new)"
    using line_fields_dash[OF takeWhile_space_all, of "'' ''" l new]
    by (simp add: pre is_space_def)
  ultimately show ?thesis
    unfolding keeps_bullet_def using pre by (simp add: suffix_def)
qed

lemma keeps_bullet_dash_v3:
  assumes "dash_prefix_v3 l = Some pre"
  shows "keeps_bullet ''-'' l new (pre @ new)"
proof -
  from dash_prefix_v3_Some[OF assms] obtain w where
    pre: "pre = takeWhile is_space l @ CHR ''-'' # w" and w: "list_all is_space w"
    and p: "prefix pre l"
    by blast
  have "prefix (takeWhile is_space l @ ''-'') pre" by (simp add: pre)
  then have 1: "prefix (takeWhile is_space l @ ''-'') l" using p by (rule prefix_order.trans)
  have 2: "prefix (takeWhile is_space l @ ''-'') (pre @ new)" by (simp add: pre)
  have 3: "line_fields (pre @ new) = line_fields (''- '' @ new)"
    using line_fields_dash[OF takeWhile_space_all w, of l new] by (simp add: pre)
  from 1 2 3 show ?thesis unfolding keeps_bullet_def by (simp add: suffix_def)
qed

subsection \<open>The removal passes\<close>

lemma replace_all_idle: "find_first m s = None \<Longrightarrow> replace_all m 0 s = s"
  by (induction s) (auto split: option.splits)

lemma priorityMatch_tail:
  "priorityMatch s = Some (p, r) \<Longrightarrow> \<exists>n. r = dropWhile is_space (drop n s)"
proof (induction s)
  case Nil
  then show ?case by simp
next
  case (Cons c cs)
  show ?case
  proof (cases "priorityMatch cs = Some (p, r)")
    case True
    from Cons.IH[OF True] obtain n where "r = dropWhile is_space (drop n cs)" by blast
    then have "r = dropWhile is_space (drop (Suc n) (c # cs))" by simp
    then show ?thesis by blast
  next
    case False
    with Cons.prems obtain r0 where ca: "cookie_at (c # cs) = Some (p, r0)"
      and r: "r = dropWhile is_space r0"
      by (auto split: option.splits if_splits)
    from ca have "r0 = drop 4 (c # cs)"
      by (auto simp: cookie_at_def split: list.splits if_splits)
    with r show ?thesis by blast
  qed
qed

lemma after_priority_tail:
  "after_priority s = s \<or> (\<exists>n. after_priority s = dropWhile is_space (drop n s))"
  by (auto simp: after_priority_def dest: priorityMatch_tail split: option.splits)

lemma line_rest_trimmed: "trimmed (line_rest l)"
  unfolding line_rest_def
  by (rule stage_trimmed[OF after_priority_tail before_priority(1)])

lemma removal_idle_clean:
  assumes "removal_idle s" "trimmed s"
  shows "clean_content s = s"
  using assms by (simp add: removal_idle_def clean_content_def replace_all_idle trimmed_trim_id)

lemma subseq_replace_all: "subseq (replace_all m k s) s"
proof (induction m k s rule: replace_all.induct)
  case (1 m k)
  then show ?case by simp
next
  case (2 m k c cs)
  then show ?case by (auto intro: list_emb.intros)
next
  case (3 m c cs)
  then show ?case by (cases "m (c # cs)") (auto split: prod.splits intro: list_emb.intros)
qed

lemma subseq_trim: "subseq (trim s) s"
  by (rule sublist_imp_subseq) (rule sublist_trim)

lemma subseq_clean_content: "subseq (clean_content s) s"
proof -
  let ?a = "replace_all (marker_at ''SCHEDULED:'') 0 s"
  let ?b = "replace_all (marker_at ''DEADLINE:'') 0 ?a"
  let ?c = "replace_all property_at 0 ?b"
  let ?d = "replace_all cookie_span 0 ?c"
  have "subseq (trim ?d) ?d" by (rule subseq_trim)
  also have "subseq ?d ?c" by (rule subseq_replace_all)
  also have "subseq ?c ?b" by (rule subseq_replace_all)
  also have "subseq ?b ?a" by (rule subseq_replace_all)
  also have "subseq ?a s" by (rule subseq_replace_all)
  finally show ?thesis by (simp add: clean_content_def)
qed

lemma scan_skip_prefix:
  assumes "\<And>t. t \<noteq> [] \<Longrightarrow> suffix t z \<Longrightarrow> m (t @ Y) = None"
  shows "find_first m (z @ Y) = find_first m Y"
    and "match_all m 0 (z @ Y) = match_all m 0 Y"
    and "replace_all m 0 (z @ Y) = z @ replace_all m 0 Y"
  using assms
proof (induction z)
  case Nil
  { case 1 show ?case by simp }
  { case 2 show ?case by simp }
  { case 3 show ?case by simp }
next
  case (Cons c cs)
  { case 1
    have "m ((c # cs) @ Y) = None" by (rule 1) simp_all
    moreover have "find_first m (cs @ Y) = find_first m Y"
      by (rule Cons.IH(1)) (rule 1, simp_all add: suffix_Cons)
    ultimately show ?case by simp }
  { case 2
    have "m ((c # cs) @ Y) = None" by (rule 2) simp_all
    moreover have "match_all m 0 (cs @ Y) = match_all m 0 Y"
      by (rule Cons.IH(2)) (rule 2, simp_all add: suffix_Cons)
    ultimately show ?case by simp }
  { case 3
    have "m ((c # cs) @ Y) = None" by (rule 3) simp_all
    moreover have "replace_all m 0 (cs @ Y) = cs @ replace_all m 0 Y"
      by (rule Cons.IH(3)) (rule 3, simp_all add: suffix_Cons)
    ultimately show ?case by simp }
qed

lemma replace_all_skip: "replace_all m (length xs) (xs @ ys) = replace_all m 0 ys"
  by (induction xs) auto

lemma find_first_cookie_priorityMatch:
  "find_first cookie_span s = None \<Longrightarrow> priorityMatch s = None"
  by (induction s) (auto simp: cookie_span_def split: option.splits)

lemma marker_capture:
  "find_first (marker_at kw) x = Some s \<Longrightarrow> s \<noteq> [] \<and> CHR ''>'' \<notin> set s"
proof (induction x)
  case Nil
  then show ?case by simp
next
  case (Cons c cs)
  show ?case
  proof (cases "marker_at kw (c # cs)")
    case None
    with Cons show ?thesis by simp
  next
    case (Some a)
    with Cons.prems obtain n where "marker_at kw (c # cs) = Some (n, s)"
      by (cases a) auto
    then obtain r2 where "s = takeWhile (\<lambda>x. x \<noteq> CHR ''>'') r2" "s \<noteq> []"
      by (auto simp: marker_at_def Let_def split: if_splits list.splits)
    then show ?thesis by (auto dest: set_takeWhileD)
  qed
qed

lemma until_gt:
  "CHR ''>'' \<notin> set s \<Longrightarrow> takeWhile (\<lambda>x. x \<noteq> CHR ''>'') (s @ CHR ''>'' # Y) = s"
  "CHR ''>'' \<notin> set s \<Longrightarrow> dropWhile (\<lambda>x. x \<noteq> CHR ''>'') (s @ CHR ''>'' # Y) = CHR ''>'' # Y"
  by (induction s) auto

lemma marker_at_token:
  assumes "s \<noteq> []" "CHR ''>'' \<notin> set s"
  shows "marker_at kw (kw @ CHR '' '' # CHR ''<'' # s @ CHR ''>'' # Y)
       = Some (length kw + length s + 3, s)"
  using assms by (simp add: marker_at_def until_gt is_space_def)

lemma prefix_cut:
  assumes "prefix k (t @ y # Y)" "y \<notin> set k"
  shows "prefix k t"
proof -
  from assms(1) consider "prefix k t" | us where "k = t @ us" "prefix us (y # Y)"
    by (auto simp: prefix_append)
  then show ?thesis
  proof cases
    case 1
    then show ?thesis .
  next
    case 2
    with assms(2) have "us = []" by (cases us) auto
    with 2 show ?thesis by simp
  qed
qed

lemma prefix_cut_end:
  assumes "prefix k (t @ Y)" "Y = [] \<or> hd Y \<notin> set k"
  shows "prefix k t"
proof (cases Y)
  case Nil
  with assms(1) show ?thesis by simp
next
  case (Cons y Y')
  with assms show ?thesis by (auto intro: prefix_cut)
qed

lemma all_space_suffix_trimmed:
  assumes "t \<noteq> []" "\<not> is_space (last t)" "t = k @ r" "list_all is_space r"
  shows "r = []"
proof (rule ccontr)
  assume "r \<noteq> []"
  with assms(3) have "last t = last r" by simp
  moreover from \<open>r \<noteq> []\<close> assms(4) have "is_space (last r)"
    by (simp add: list_all_iff)
  ultimately show False using assms(2) by simp
qed

lemma not_space_takeWhile_Nil:
  "takeWhile not_space (dropWhile is_space r) = [] \<Longrightarrow> list_all is_space r"
proof -
  assume a: "takeWhile not_space (dropWhile is_space r) = []"
  have "dropWhile is_space r = []"
  proof (cases "dropWhile is_space r")
    case Nil
    then show ?thesis .
  next
    case (Cons x xs)
    then have "\<not> is_space x" by (metis hd_dropWhile list.sel(1) list.distinct(1))
    with a Cons show ?thesis by (simp add: not_space_def)
  qed
  then show ?thesis by (simp add: list_all_iff dropWhile_eq_Nil_conv)
qed

text \<open>No property token starts in a trimmed text that has none, whatever follows it.\<close>

lemma property_at_continued:
  assumes pn: "property_at t = None" and ne: "t \<noteq> []" and lt: "\<not> is_space (last t)"
    and Y: "Y = [] \<or> (hd Y = CHR '' '' \<and> last t \<noteq> CHR '':'')"
  shows "property_at (t @ Y) = None"
proof (cases Y)
  case Nil
  with pn show ?thesis by simp
next
  case (Cons y Y')
  with Y have y: "y = CHR '' ''" and lc: "last t \<noteq> CHR '':''" by simp_all
  from ne obtain a cs where t: "t = a # cs" by (cases t) auto
  have nk: "\<not> is_key_char (CHR '' '')" by (simp add: is_key_char_def is_key_start_def)
  show ?thesis
  proof (cases "is_key_start a")
    case False
    then show ?thesis by (simp add: property_at_def t)
  next
    case True
    show ?thesis
    proof (cases "dropWhile is_key_char cs")
      case Nil
      then have all: "\<forall>x\<in>set cs. is_key_char x" by (simp add: dropWhile_eq_Nil_conv)
      then have "dropWhile is_key_char (cs @ Y) = Y"
        using nk by (simp add: dropWhile_append2 Cons y)
      then show ?thesis by (simp add: property_at_def t True Cons y)
    next
      case dc: (Cons d r)
      then have "d \<in> set cs" "\<not> is_key_char d"
        by (metis list.set_intros(1) set_dropWhileD, metis hd_dropWhile list.sel(1) list.distinct(1))
      then have dw: "dropWhile is_key_char (cs @ Y) = d # r @ Y"
        by (simp add: dropWhile_append1 dc)
      have "d \<noteq> CHR '':''"
      proof
        assume d: "d = CHR '':''"
        with pn t True dc have "takeWhile not_space (dropWhile is_space r) = []"
          by (simp add: property_at_def Let_def split: if_splits)
        then have sp: "list_all is_space r" by (rule not_space_takeWhile_Nil)
        have "t = (a # takeWhile is_key_char cs @ [d]) @ r"
          using t dc by (metis append_Cons append.assoc append_Nil takeWhile_dropWhile_id)
        from all_space_suffix_trimmed[OF ne lt this sp] have "r = []" .
        with t dc have "cs = takeWhile is_key_char cs @ [d]"
          by (metis takeWhile_dropWhile_id)
        then have "last t = d" using t by (metis last_ConsR last_snoc snoc_eq_iff_butlast)
        with d lc show False by simp
      qed
      then show ?thesis by (simp add: property_at_def t True dw)
    qed
  qed
qed

lemma marker_at_continued:
  assumes pn: "property_at t = None" and ne: "t \<noteq> []" and lt: "\<not> is_space (last t)"
    and Y: "Y = [] \<or> (hd Y = CHR '' '' \<and> last t \<noteq> CHR '':'')"
    and kw: "kw = ''SCHEDULED:'' \<or> kw = ''DEADLINE:''"
  shows "marker_at kw (t @ Y) = None"
proof (cases "prefix kw (t @ Y)")
  case False
  then show ?thesis by (simp add: marker_at_def)
next
  case True
  from kw have "CHR '' '' \<notin> set kw" by auto
  with Y have "Y = [] \<or> hd Y \<notin> set kw" by auto
  with True have "prefix kw t" by (rule prefix_cut_end)
  then obtain r where t: "t = kw @ r" by (auto simp: prefix_def)
  from kw pn t have "takeWhile not_space (dropWhile is_space r) = []"
    by (auto simp: property_at_def Let_def is_key_start_def is_key_char_def split: if_splits)
  then have "list_all is_space r" by (rule not_space_takeWhile_Nil)
  from all_space_suffix_trimmed[OF ne lt t this] have r: "r = []" .
  with t kw have "last t = CHR '':''" by auto
  with Y have "Y = []" by auto
  with t r kw show ?thesis by (auto simp: marker_at_def)
qed

lemma cookie_at_continued:
  assumes "cookie_at t = None" "t \<noteq> []"
    and "Y = [] \<or> hd Y = CHR '' '' \<or> hd Y = CHR ''>''"
  shows "cookie_at (t @ Y) = None"
proof (cases Y)
  case Nil
  with assms show ?thesis by simp
next
  case (Cons y Y')
  with assms(3) have y: "y = CHR '' '' \<or> y = CHR ''>''" by simp
  show ?thesis
  proof (cases t)
    case Nil
    with assms show ?thesis by simp
  next
    case t1: (Cons a t')
    show ?thesis
    proof (cases t')
      case Nil
      with t1 Cons y show ?thesis by (auto simp: cookie_at_def split: list.splits)
    next
      case t2: (Cons b t'')
      show ?thesis
      proof (cases t'')
        case Nil
        with t1 t2 Cons y show ?thesis
          by (auto simp: cookie_at_def priority_of_char_def split: list.splits)
      next
        case t3: (Cons c t''')
        show ?thesis
        proof (cases t''')
          case Nil
          with t1 t2 t3 Cons y show ?thesis
            by (auto simp: cookie_at_def priority_of_char_def split: list.splits)
        next
          case t4: (Cons d u)
          with t1 t2 t3 assms(1) show ?thesis
            by (auto simp: cookie_at_def split: if_splits)
        qed
      qed
    qed
  qed
qed

subsection \<open>The date tokens of a written line\<close>

lemma cookie_at_not_bracket: "c \<noteq> CHR ''['' \<Longrightarrow> cookie_at (c # r) = None"
  by (auto simp: cookie_at_def split: list.splits)

lemma cookie_span_not_bracket: "c \<noteq> CHR ''['' \<Longrightarrow> cookie_span (c # r) = None"
  by (simp add: cookie_span_def cookie_at_not_bracket)

lemma date_text_no_marker:
  assumes "\<not> str_includes x kw" "t \<noteq> []" "suffix t x" "CHR ''>'' \<notin> set kw"
  shows "marker_at kw (t @ CHR ''>'' # Y) = None"
proof (cases "prefix kw (t @ CHR ''>'' # Y)")
  case False
  then show ?thesis by (simp add: marker_at_def)
next
  case True
  then have "prefix kw t" using assms(4) by (rule prefix_cut)
  then have "sublist kw t" by (rule prefix_imp_sublist)
  moreover from assms(3) have "sublist t x" by (rule suffix_imp_sublist)
  ultimately have "sublist kw x" by (rule sublist_order.order_trans)
  with assms(1) show ?thesis by (simp add: str_includes_sublist)
qed

lemma date_text_no_cookie:
  assumes "find_first cookie_span x = None" "t \<noteq> []" "suffix t x"
  shows "cookie_span (t @ CHR ''>'' # Y) = None"
proof -
  from assms(1) assms(3) assms(2) have "cookie_span t = None" by (rule find_first_NoneD)
  then have "cookie_at t = None" by (simp add: cookie_span_def)
  then have "cookie_at (t @ CHR ''>'' # Y) = None"
    using assms(2) by (rule cookie_at_continued) simp
  then show ?thesis by (simp add: cookie_span_def)
qed

lemma sched_find:
  assumes "s \<noteq> []" "CHR ''>'' \<notin> set s"
  shows "find_first (marker_at ''SCHEDULED:'') (CHR '' '' # CHR ''S'' # CHR ''C'' # CHR ''H'' # CHR ''E'' # CHR ''D'' # CHR ''U'' # CHR ''L'' # CHR ''E'' # CHR ''D'' # CHR '':'' # CHR '' '' # CHR ''<'' # s @ CHR ''>'' # Y) = Some s"
proof -
  have "marker_at ''SCHEDULED:'' (CHR ''S'' # CHR ''C'' # CHR ''H'' # CHR ''E'' # CHR ''D'' # CHR ''U'' # CHR ''L'' # CHR ''E'' # CHR ''D'' # CHR '':'' # CHR '' '' # CHR ''<'' # s @ CHR ''>'' # Y) = Some (length s + 13, s)"
    using marker_at_token[OF assms, of "''SCHEDULED:''" Y] by simp
  then show ?thesis by (simp add: marker_at_def)
qed

lemma deadline_find:
  assumes "s \<noteq> []" "CHR ''>'' \<notin> set s"
  shows "find_first (marker_at ''DEADLINE:'') (CHR '' '' # CHR ''D'' # CHR ''E'' # CHR ''A'' # CHR ''D'' # CHR ''L'' # CHR ''I'' # CHR ''N'' # CHR ''E'' # CHR '':'' # CHR '' '' # CHR ''<'' # s @ CHR ''>'' # Y) = Some s"
proof -
  have "marker_at ''DEADLINE:'' (CHR ''D'' # CHR ''E'' # CHR ''A'' # CHR ''D'' # CHR ''L'' # CHR ''I'' # CHR ''N'' # CHR ''E'' # CHR '':'' # CHR '' '' # CHR ''<'' # s @ CHR ''>'' # Y) = Some (length s + 12, s)"
    using marker_at_token[OF assms, of "''DEADLINE:''" Y] by simp
  then show ?thesis by (simp add: marker_at_def)
qed

lemma sched_replace:
  assumes "s \<noteq> []" "CHR ''>'' \<notin> set s"
  shows "replace_all (marker_at ''SCHEDULED:'') 0 (CHR '' '' # CHR ''S'' # CHR ''C'' # CHR ''H'' # CHR ''E'' # CHR ''D'' # CHR ''U'' # CHR ''L'' # CHR ''E'' # CHR ''D'' # CHR '':'' # CHR '' '' # CHR ''<'' # s @ CHR ''>'' # Y)
       = CHR '' '' # replace_all (marker_at ''SCHEDULED:'') 0 Y"
proof -
  have m: "marker_at ''SCHEDULED:'' (CHR ''S'' # CHR ''C'' # CHR ''H'' # CHR ''E'' # CHR ''D'' # CHR ''U'' # CHR ''L'' # CHR ''E'' # CHR ''D'' # CHR '':'' # CHR '' '' # CHR ''<'' # s @ CHR ''>'' # Y) = Some (length s + 13, s)"
    using marker_at_token[OF assms, of "''SCHEDULED:''" Y] by simp
  have k: "n = length s + 12 \<Longrightarrow> replace_all (marker_at ''SCHEDULED:'') n (CHR ''C'' # CHR ''H'' # CHR ''E'' # CHR ''D'' # CHR ''U'' # CHR ''L'' # CHR ''E'' # CHR ''D'' # CHR '':'' # CHR '' '' # CHR ''<'' # s @ CHR ''>'' # Y)
      = replace_all (marker_at ''SCHEDULED:'') 0 Y" for n
    using replace_all_skip[of "marker_at ''SCHEDULED:''" "s @ ''>''" Y]
    by (simp add: eval_nat_numeral)
  have n: "marker_at ''SCHEDULED:'' (CHR '' '' # r) = None" for r
    by (simp add: marker_at_def)
  show ?thesis by (simp add: n m k)
qed

lemma deadline_replace:
  assumes "s \<noteq> []" "CHR ''>'' \<notin> set s"
  shows "replace_all (marker_at ''DEADLINE:'') 0 (CHR '' '' # CHR ''D'' # CHR ''E'' # CHR ''A'' # CHR ''D'' # CHR ''L'' # CHR ''I'' # CHR ''N'' # CHR ''E'' # CHR '':'' # CHR '' '' # CHR ''<'' # s @ CHR ''>'' # Y)
       = CHR '' '' # replace_all (marker_at ''DEADLINE:'') 0 Y"
proof -
  have m: "marker_at ''DEADLINE:'' (CHR ''D'' # CHR ''E'' # CHR ''A'' # CHR ''D'' # CHR ''L'' # CHR ''I'' # CHR ''N'' # CHR ''E'' # CHR '':'' # CHR '' '' # CHR ''<'' # s @ CHR ''>'' # Y) = Some (length s + 12, s)"
    using marker_at_token[OF assms, of "''DEADLINE:''" Y] by simp
  have k: "n = length s + 11 \<Longrightarrow> replace_all (marker_at ''DEADLINE:'') n (CHR ''E'' # CHR ''A'' # CHR ''D'' # CHR ''L'' # CHR ''I'' # CHR ''N'' # CHR ''E'' # CHR '':'' # CHR '' '' # CHR ''<'' # s @ CHR ''>'' # Y)
      = replace_all (marker_at ''DEADLINE:'') 0 Y" for n
    using replace_all_skip[of "marker_at ''DEADLINE:''" "s @ ''>''" Y]
    by (simp add: eval_nat_numeral)
  have n: "marker_at ''DEADLINE:'' (CHR '' '' # r) = None" for r
    by (simp add: marker_at_def)
  show ?thesis by (simp add: n m k)
qed

lemma sched_no_deadline:
  assumes "\<not> str_includes s ''DEADLINE:''"
  shows "find_first (marker_at ''DEADLINE:'') (CHR '' '' # CHR ''S'' # CHR ''C'' # CHR ''H'' # CHR ''E'' # CHR ''D'' # CHR ''U'' # CHR ''L'' # CHR ''E'' # CHR ''D'' # CHR '':'' # CHR '' '' # CHR ''<'' # s @ CHR ''>'' # Y) = find_first (marker_at ''DEADLINE:'') Y"
proof -
  have "find_first (marker_at ''DEADLINE:'') (s @ CHR ''>'' # Y)
      = find_first (marker_at ''DEADLINE:'') (CHR ''>'' # Y)"
    by (rule scan_skip_prefix(1)) (rule date_text_no_marker[OF assms], simp_all)
  then show ?thesis by (simp add: marker_at_def)
qed

lemma deadline_no_sched:
  assumes "\<not> str_includes s ''SCHEDULED:''"
  shows "find_first (marker_at ''SCHEDULED:'') (CHR '' '' # CHR ''D'' # CHR ''E'' # CHR ''A'' # CHR ''D'' # CHR ''L'' # CHR ''I'' # CHR ''N'' # CHR ''E'' # CHR '':'' # CHR '' '' # CHR ''<'' # s @ CHR ''>'' # Y) = find_first (marker_at ''SCHEDULED:'') Y"
    and "replace_all (marker_at ''SCHEDULED:'') 0 (CHR '' '' # CHR ''D'' # CHR ''E'' # CHR ''A'' # CHR ''D'' # CHR ''L'' # CHR ''I'' # CHR ''N'' # CHR ''E'' # CHR '':'' # CHR '' '' # CHR ''<'' # s @ CHR ''>'' # Y)
       = CHR '' '' # CHR ''D'' # CHR ''E'' # CHR ''A'' # CHR ''D'' # CHR ''L'' # CHR ''I'' # CHR ''N'' # CHR ''E'' # CHR '':'' # CHR '' '' # CHR ''<'' # s @ CHR ''>'' # replace_all (marker_at ''SCHEDULED:'') 0 Y"
proof -
  have "find_first (marker_at ''SCHEDULED:'') (s @ CHR ''>'' # Y)
      = find_first (marker_at ''SCHEDULED:'') (CHR ''>'' # Y)"
    by (rule scan_skip_prefix(1)) (rule date_text_no_marker[OF assms], simp_all)
  then show "find_first (marker_at ''SCHEDULED:'') (CHR '' '' # CHR ''D'' # CHR ''E'' # CHR ''A'' # CHR ''D'' # CHR ''L'' # CHR ''I'' # CHR ''N'' # CHR ''E'' # CHR '':'' # CHR '' '' # CHR ''<'' # s @ CHR ''>'' # Y) = find_first (marker_at ''SCHEDULED:'') Y"
    by (simp add: marker_at_def)
  have "replace_all (marker_at ''SCHEDULED:'') 0 (s @ CHR ''>'' # Y)
      = s @ replace_all (marker_at ''SCHEDULED:'') 0 (CHR ''>'' # Y)"
    by (rule scan_skip_prefix(3)) (rule date_text_no_marker[OF assms], simp_all)
  then show "replace_all (marker_at ''SCHEDULED:'') 0 (CHR '' '' # CHR ''D'' # CHR ''E'' # CHR ''A'' # CHR ''D'' # CHR ''L'' # CHR ''I'' # CHR ''N'' # CHR ''E'' # CHR '':'' # CHR '' '' # CHR ''<'' # s @ CHR ''>'' # Y)
       = CHR '' '' # CHR ''D'' # CHR ''E'' # CHR ''A'' # CHR ''D'' # CHR ''L'' # CHR ''I'' # CHR ''N'' # CHR ''E'' # CHR '':'' # CHR '' '' # CHR ''<'' # s @ CHR ''>'' # replace_all (marker_at ''SCHEDULED:'') 0 Y"
    by (simp add: marker_at_def)
qed

lemma token_cookie:
  assumes "find_first cookie_span s = None"
  shows "find_first cookie_span (CHR '' '' # CHR ''S'' # CHR ''C'' # CHR ''H'' # CHR ''E'' # CHR ''D'' # CHR ''U'' # CHR ''L'' # CHR ''E'' # CHR ''D'' # CHR '':'' # CHR '' '' # CHR ''<'' # s @ CHR ''>'' # Y) = find_first cookie_span Y"
    and "find_first cookie_span (CHR '' '' # CHR ''D'' # CHR ''E'' # CHR ''A'' # CHR ''D'' # CHR ''L'' # CHR ''I'' # CHR ''N'' # CHR ''E'' # CHR '':'' # CHR '' '' # CHR ''<'' # s @ CHR ''>'' # Y) = find_first cookie_span Y"
proof -
  have "find_first cookie_span (s @ CHR ''>'' # Y) = find_first cookie_span (CHR ''>'' # Y)"
    by (rule scan_skip_prefix(1)) (rule date_text_no_cookie[OF assms])
  then show "find_first cookie_span (CHR '' '' # CHR ''S'' # CHR ''C'' # CHR ''H'' # CHR ''E'' # CHR ''D'' # CHR ''U'' # CHR ''L'' # CHR ''E'' # CHR ''D'' # CHR '':'' # CHR '' '' # CHR ''<'' # s @ CHR ''>'' # Y) = find_first cookie_span Y"
    and "find_first cookie_span (CHR '' '' # CHR ''D'' # CHR ''E'' # CHR ''A'' # CHR ''D'' # CHR ''L'' # CHR ''I'' # CHR ''N'' # CHR ''E'' # CHR '':'' # CHR '' '' # CHR ''<'' # s @ CHR ''>'' # Y) = find_first cookie_span Y"
    by (simp_all add: cookie_span_not_bracket)
qed

lemma marker_at_space:
  "marker_at ''SCHEDULED:'' (CHR '' '' # r) = None"
  "marker_at ''DEADLINE:'' (CHR '' '' # r) = None"
  by (simp_all add: marker_at_def)

lemma replace_space:
  "replace_all (marker_at ''DEADLINE:'') 0 (CHR '' '' # r)
     = CHR '' '' # replace_all (marker_at ''DEADLINE:'') 0 r"
  by (simp add: marker_at_space)

lemma deadline_replace_bare:
  assumes "s \<noteq> []" "CHR ''>'' \<notin> set s"
  shows "replace_all (marker_at ''DEADLINE:'') 0 (CHR ''D'' # CHR ''E'' # CHR ''A'' # CHR ''D'' # CHR ''L'' # CHR ''I'' # CHR ''N'' # CHR ''E'' # CHR '':'' # CHR '' '' # CHR ''<'' # s @ CHR ''>'' # Y)
       = replace_all (marker_at ''DEADLINE:'') 0 Y"
  using deadline_replace[OF assms, of Y] by (simp add: marker_at_space)

lemma tokens_scan:
  fixes so dl :: "string option"
  assumes so: "\<forall>s. so = Some s \<longrightarrow> s \<noteq> [] \<and> CHR ''>'' \<notin> set s \<and> date_text s"
    and dl: "\<forall>d. dl = Some d \<longrightarrow> d \<noteq> [] \<and> CHR ''>'' \<notin> set d \<and> date_text d"
  defines "T \<equiv> (case so of None \<Rightarrow> [] | Some s \<Rightarrow> '' SCHEDULED: <'' @ s @ ''>'')
              @ (case dl of None \<Rightarrow> [] | Some d \<Rightarrow> '' DEADLINE: <'' @ d @ ''>'')"
  defines "U \<equiv> replace_all (marker_at ''SCHEDULED:'') 0 T"
  defines "W \<equiv> replace_all (marker_at ''DEADLINE:'') 0 U"
  shows "T = [] \<or> hd T = CHR '' ''"
    and "find_first (marker_at ''SCHEDULED:'') T = so"
    and "find_first (marker_at ''DEADLINE:'') T = dl"
    and "find_first cookie_span T = None"
    and "U = [] \<or> (hd U = CHR '' '' \<and> T \<noteq> [])"
    and "W = [] \<or> (hd W = CHR '' '' \<and> T \<noteq> [])"
    and "list_all is_space W"
    and "list_all dot_char T"
    and "T \<noteq> [] \<longrightarrow> last T = CHR ''>''"
proof -
  note rules = sched_find deadline_find sched_replace deadline_replace_bare sched_no_deadline
    deadline_no_sched token_cookie replace_space date_text_def
  show "T = [] \<or> hd T = CHR '' ''"
    by (cases so; cases dl) (simp_all add: T_def)
  show "find_first (marker_at ''SCHEDULED:'') T = so"
    using so dl by (cases so; cases dl)
      (simp_all add: T_def rules del: find_first.simps(2) split: if_splits)
  show "find_first (marker_at ''DEADLINE:'') T = dl"
    using so dl by (cases so; cases dl)
      (simp_all add: T_def rules del: find_first.simps(2) split: if_splits)
  show "find_first cookie_span T = None"
    using so dl by (cases so; cases dl)
      (simp_all add: T_def rules del: find_first.simps(2) split: if_splits)
  show "U = [] \<or> (hd U = CHR '' '' \<and> T \<noteq> [])"
    using so dl by (cases so; cases dl)
      (simp_all add: U_def T_def rules del: replace_all.simps(3) split: if_splits)
  show "W = [] \<or> (hd W = CHR '' '' \<and> T \<noteq> [])"
    using so dl by (cases so; cases dl)
      (simp_all add: W_def U_def T_def rules del: replace_all.simps(3) split: if_splits)
  show "list_all is_space W"
    using so dl by (cases so; cases dl)
      (simp_all add: W_def U_def T_def rules is_space_def del: replace_all.simps(3) split: if_splits)
  show "list_all dot_char T"
    using so dl by (cases so; cases dl)
      (simp_all add: T_def date_text_def dot_char_def is_line_term_def)
  show "T \<noteq> [] \<longrightarrow> last T = CHR ''>''"
    by (cases so; cases dl) (simp_all add: T_def)
qed

lemma spaces_no_token:
  "list_all is_space W \<Longrightarrow> find_first property_at W = None \<and> find_first cookie_span W = None"
proof (induction W)
  case Nil
  then show ?case by simp
next
  case (Cons w W)
  then have "is_space w" by simp
  then have "\<not> is_key_start w" "w \<noteq> CHR ''[''"
    by (auto simp: is_space_def is_key_start_def)
  with Cons show ?case by (simp add: property_at_def cookie_span_not_bracket)
qed

lemma suffix_last: "suffix t c \<Longrightarrow> t \<noteq> [] \<Longrightarrow> last t = last c"
  by (auto simp: suffix_def)

lemma trim_append_spaces:
  assumes "c \<noteq> []" "trimmed c" "list_all is_space W"
  shows "trim (c @ W) = c"
proof -
  from assms(1,2) have h: "\<not> is_space (hd c)" and l: "\<not> is_space (last c)"
    by (simp_all add: trimmed_iff)
  from assms(1) h have 1: "dropWhile is_space (c @ W) = c @ W"
    by (cases c) simp_all
  from assms(3) have "\<And>x. x \<in> set (rev W) \<Longrightarrow> is_space x" by (simp add: list_all_iff)
  then have "dropWhile is_space (rev W @ rev c) = dropWhile is_space (rev c)"
    by (rule dropWhile_append2)
  also have "\<dots> = rev c"
    using assms(1) l by (intro dropWhile_space_id) (simp_all add: hd_rev)
  finally show ?thesis by (simp add: trim_def 1)
qed

lemma content_then_tokens:
  fixes so dl :: "string option"
  assumes c_ne: "c \<noteq> []" and c_tr: "trimmed c" and ft: "free_text c"
    and so: "\<forall>s. so = Some s \<longrightarrow> s \<noteq> [] \<and> CHR ''>'' \<notin> set s \<and> date_text s"
    and dl: "\<forall>d. dl = Some d \<longrightarrow> d \<noteq> [] \<and> CHR ''>'' \<notin> set d \<and> date_text d"
  defines "T \<equiv> (case so of None \<Rightarrow> [] | Some s \<Rightarrow> '' SCHEDULED: <'' @ s @ ''>'')
              @ (case dl of None \<Rightarrow> [] | Some d \<Rightarrow> '' DEADLINE: <'' @ d @ ''>'')"
  assumes colon: "T \<noteq> [] \<longrightarrow> last c \<noteq> CHR '':''"
  shows "find_first (marker_at ''SCHEDULED:'') (c @ T) = so"
    and "find_first (marker_at ''DEADLINE:'') (c @ T) = dl"
    and "match_all property_at 0 (c @ T) = match_all property_at 0 T"
    and "clean_content (c @ T) = c"
    and "find_first cookie_span (c @ T) = None"
    and "list_all dot_char (c @ T)"
    and "\<not> is_space (last (c @ T))"
proof -
  define U where "U = replace_all (marker_at ''SCHEDULED:'') 0 T"
  define W where "W = replace_all (marker_at ''DEADLINE:'') 0 U"
  note ts = tokens_scan[of so dl, OF so dl, folded T_def, folded U_def, folded W_def]
  from c_ne c_tr have c_last: "\<not> is_space (last c)" by (simp add: trimmed_iff)
  have pn: "property_at t = None" and ck: "cookie_at t = None" and tl: "\<not> is_space (last t)"
    and tc: "last t = last c"
    if "t \<noteq> []" "suffix t c" for t
  proof -
    from ft have "find_first property_at c = None" "find_first cookie_span c = None"
      by (simp_all add: free_text_def)
    from find_first_NoneD[OF this(1) that(2,1)] show "property_at t = None" .
    from find_first_NoneD[OF \<open>find_first cookie_span c = None\<close> that(2,1)]
    show "cookie_at t = None" by (simp add: cookie_span_def)
    from that show "last t = last c" by (simp add: suffix_last)
    with c_last show "\<not> is_space (last t)" by simp
  qed
  have cont: "Y = [] \<or> (hd Y = CHR '' '' \<and> last t \<noteq> CHR '':'')"
    if "Y = [] \<or> (hd Y = CHR '' '' \<and> T \<noteq> [])" "t \<noteq> []" "suffix t c" for Y t
    using that colon tc[OF that(2,3)] by auto
  have mk: "marker_at kw (t @ Y) = None"
    if "Y = [] \<or> (hd Y = CHR '' '' \<and> T \<noteq> [])" "t \<noteq> []" "suffix t c"
      "kw = ''SCHEDULED:'' \<or> kw = ''DEADLINE:''" for Y t kw
    by (rule marker_at_continued[OF pn[OF that(2,3)] that(2) tl[OF that(2,3)] cont[OF that(1,2,3)] that(4)])
  have pa: "property_at (t @ Y) = None"
    if "Y = [] \<or> (hd Y = CHR '' '' \<and> T \<noteq> [])" "t \<noteq> []" "suffix t c" for Y t
    by (rule property_at_continued[OF pn[OF that(2,3)] that(2) tl[OF that(2,3)] cont[OF that]])
  have ca: "cookie_span (t @ Y) = None"
    if "Y = [] \<or> (hd Y = CHR '' '' \<and> T \<noteq> [])" "t \<noteq> []" "suffix t c" for Y t
  proof -
    from that(1) have "Y = [] \<or> hd Y = CHR '' '' \<or> hd Y = CHR ''>''" by auto
    from cookie_at_continued[OF ck[OF that(2,3)] that(2) this] show ?thesis
      by (simp add: cookie_span_def)
  qed
  have T0: "T = [] \<or> (hd T = CHR '' '' \<and> T \<noteq> [])" using ts(1) by auto
  have "find_first (marker_at ''SCHEDULED:'') (c @ T) = find_first (marker_at ''SCHEDULED:'') T"
    by (rule scan_skip_prefix(1)) (rule mk[OF T0], simp_all)
  with ts(2) show "find_first (marker_at ''SCHEDULED:'') (c @ T) = so" by simp
  have "find_first (marker_at ''DEADLINE:'') (c @ T) = find_first (marker_at ''DEADLINE:'') T"
    by (rule scan_skip_prefix(1)) (rule mk[OF T0], simp_all)
  with ts(3) show "find_first (marker_at ''DEADLINE:'') (c @ T) = dl" by simp
  show "match_all property_at 0 (c @ T) = match_all property_at 0 T"
    by (rule scan_skip_prefix(2)) (rule pa[OF T0])
  have "find_first cookie_span (c @ T) = find_first cookie_span T"
    by (rule scan_skip_prefix(1)) (rule ca[OF T0])
  with ts(4) show "find_first cookie_span (c @ T) = None" by simp
  have r1: "replace_all (marker_at ''SCHEDULED:'') 0 (c @ T) = c @ U"
    unfolding U_def by (rule scan_skip_prefix(3)) (rule mk[OF T0], simp_all)
  have r2: "replace_all (marker_at ''DEADLINE:'') 0 (c @ U) = c @ W"
    unfolding W_def by (rule scan_skip_prefix(3)) (rule mk[OF ts(5)], simp_all)
  from spaces_no_token[OF ts(7)] have w: "replace_all property_at 0 W = W"
    "replace_all cookie_span 0 W = W"
    by (simp_all add: replace_all_idle)
  have "replace_all property_at 0 (c @ W) = c @ replace_all property_at 0 W"
    by (rule scan_skip_prefix(3)) (rule pa[OF ts(6)])
  with w have r3: "replace_all property_at 0 (c @ W) = c @ W" by simp
  have "replace_all cookie_span 0 (c @ W) = c @ replace_all cookie_span 0 W"
    by (rule scan_skip_prefix(3)) (rule ca[OF ts(6)])
  with w have r4: "replace_all cookie_span 0 (c @ W) = c @ W" by simp
  show "clean_content (c @ T) = c"
    by (simp add: clean_content_def r1 r2 r3 r4 trim_append_spaces[OF c_ne c_tr ts(7)])
  from ft ts(8) show "list_all dot_char (c @ T)" by (simp add: free_text_def)
  show "\<not> is_space (last (c @ T))"
    using ts(9) c_last by (cases "T = []") (simp_all add: is_space_def)
qed

lemma no_uuid_start:
  assumes "R \<noteq> []" "\<not> is_uuid_char (hd R)"
  shows "fullUuidMatch R = None" and "shortUuidMatch R = None"
proof -
  from assms obtain h t where R: "R = h # t" and h: "\<not> is_uuid_char h" by (cases R) auto
  then have "\<not> is_hex h" by (simp add: is_uuid_char_def)
  with h show "fullUuidMatch R = None" and "shortUuidMatch R = None"
    by (simp_all add: fullUuidMatch_def shortUuidMatch_def R)
qed

lemma todo_text_not_uuid: "\<not> is_uuid_char (hd (todo_text k))"
  by (cases k) (simp_all add: is_uuid_char_def is_hex_def)

lemma parse_uuid_none:
  assumes "fullUuidMatch R = None" "shortUuidMatch R = None"
  shows "after_uuid R = R" and "fst (parse_uuid g1 g2 R) = g1"
  using assms by (simp_all add: after_uuid_def parse_uuid_def)

lemma parsed_dates:
  assumes "parseLine fresh1 fresh2 l = Some b"
  shows "scheduled b = Some d \<Longrightarrow> d \<noteq> [] \<and> CHR ''>'' \<notin> set d"
    and "deadline b = Some d \<Longrightarrow> d \<noteq> [] \<and> CHR ''>'' \<notin> set d"
proof -
  from assms have s: "scheduled b = find_first (marker_at ''SCHEDULED:'') (line_rest l)"
    and d: "deadline b = find_first (marker_at ''DEADLINE:'') (line_rest l)"
    by (auto simp: parseLine_unfold split: if_splits)
  show "scheduled b = Some d \<Longrightarrow> d \<noteq> [] \<and> CHR ''>'' \<notin> set d"
    unfolding s by (rule marker_capture)
  show "deadline b = Some d \<Longrightarrow> d \<noteq> [] \<and> CHR ''>'' \<notin> set d"
    unfolding d by (rule marker_capture)
qed

section \<open>Properties of the mutation tools\<close>

text \<open>
  C1. A request whose identity matches no parsed block has to end in a not-found
  result with every file left as it was. \<open>delete_block\<close> looks the identity up among
  the parsed blocks and does so. \<open>update_block\<close> does not consult the parsed blocks: it
  searches the raw lines of every file for the text of the identity. In the
  collection below the only block has a generated identity and refers to a vanished
  block by a link, so the identity \<open>deadbeef\<close> matches no parsed block;
  \<open>delete_block\<close> answers not-found and writes nothing, while \<open>update_block\<close>, in
  version 4.0.0 and in version 2.1.0 alike, overwrites the line that holds the link.
\<close>

theorem update_block_rewrites_without_parsed_block:
  "find_target ''deadbeef'' (getAllPages sample_gens
       [(''/graph/pages/notes.md'', ''- See ((deadbeef-0000-4000-8000-000000000000))'')]) = None
   \<and> delete_block sample_gens
       [(''/graph/pages/notes.md'', ''- See ((deadbeef-0000-4000-8000-000000000000))'')] ''deadbeef''
     = (DeleteNotFound,
        [(''/graph/pages/notes.md'', ''- See ((deadbeef-0000-4000-8000-000000000000))'')])
   \<and> update_block sample_gens
       [(''/graph/pages/notes.md'', ''- See ((deadbeef-0000-4000-8000-000000000000))'')]
       ''deadbeef'' ''Gone''
     = (UpdateSuccess ''/graph/pages/notes.md'' 0, [(''/graph/pages/notes.md'', ''- Gone'')])
   \<and> update_block_v3 sample_gens
       [(''/graph/pages/notes.md'', ''- See ((deadbeef-0000-4000-8000-000000000000))'')]
       ''deadbeef'' ''Gone''
     = (UpdateSuccess ''/graph/pages/notes.md'' 0, [(''/graph/pages/notes.md'', ''- Gone'')])"
  by code_simp

text \<open>
  C2, as the code has it. When \<open>update_block\<close> rewrites a line, the rewritten line
  keeps the indentation and the bullet marker of the old line and ends with the
  payload; the other lines of the file and the other files stay as they were. The
  task keyword and the priority cookie of the old line are not carried over: the task
  state, the priority, the content, the dates, the properties and the references
  that the parser reads from the rewritten line are those it reads from a bulleted
  line that holds the payload alone. This is so for the tool of version 4.0.0, whose
  bullet marker is a dash followed by a space, and for the tool of version 2.1.0,
  whose bullet marker is a dash.
\<close>

theorem update_block_keeps_bullet:
  "(\<forall>p i fs'. update_block gens fs u new = (UpdateSuccess p i, fs') \<longrightarrow>
      (\<exists>text l'. readFile fs p = Some text \<and> i < length (split_lines text)
         \<and> fs' = writeFile fs p (join_lines ((split_lines text)[i := l']))
         \<and> keeps_bullet ''- '' (split_lines text ! i) new l'))
   \<and> (\<forall>p i fs'. update_block_v3 gens fs u new = (UpdateSuccess p i, fs') \<longrightarrow>
      (\<exists>text l'. readFile fs p = Some text \<and> i < length (split_lines text)
         \<and> fs' = writeFile fs p (join_lines ((split_lines text)[i := l']))
         \<and> keeps_bullet ''-'' (split_lines text ! i) new l'))"
proof (intro conjI allI impI)
  fix p i fs'
  assume "update_block gens fs u new = (UpdateSuccess p i, fs')"
  then obtain c ls' where c: "readFile fs p = Some c"
    and ul: "update_lines u new (split_lines c) = Some (i, ls')"
    and w: "fs' = writeFile fs p (join_lines ls')"
    unfolding update_block_def by (blast dest: update_pages_success)
  from update_lines_Some[OF ul] obtain pre where i: "i < length (split_lines c)"
    and d: "dash_prefix (split_lines c ! i) = Some pre"
    and ls': "ls' = (split_lines c)[i := pre @ new]"
    by blast
  from keeps_bullet_dash[OF d] c i w ls'
  show "\<exists>text l'. readFile fs p = Some text \<and> i < length (split_lines text)
         \<and> fs' = writeFile fs p (join_lines ((split_lines text)[i := l']))
         \<and> keeps_bullet ''- '' (split_lines text ! i) new l'"
    by blast
next
  fix p i fs'
  assume "update_block_v3 gens fs u new = (UpdateSuccess p i, fs')"
  then have "update_pages_v3 fs u new (map path (getAllPages gens fs)) = (UpdateSuccess p i, fs')"
    by (simp add: update_block_v3_def split: if_splits)
  then obtain c ls' where c: "readFile fs p = Some c"
    and ul: "update_lines_v3 u new (split_lines c) = Some (i, ls')"
    and w: "fs' = writeFile fs p (join_lines ls')"
    by (blast dest: update_pages_v3_success)
  from update_lines_v3_Some[OF ul] obtain pre where i: "i < length (split_lines c)"
    and d: "dash_prefix_v3 (split_lines c ! i) = Some pre"
    and ls': "ls' = (split_lines c)[i := pre @ new]"
    by blast
  from keeps_bullet_dash_v3[OF d] c i w ls'
  show "\<exists>text l'. readFile fs p = Some text \<and> i < length (split_lines text)
         \<and> fs' = writeFile fs p (join_lines ((split_lines text)[i := l']))
         \<and> keeps_bullet ''-'' (split_lines text ! i) new l'"
    by blast
qed

theorem update_block_keeps_bullet_witness:
  "(\<exists>text l'. readFile [(''/graph/pages/p.md'', ''  - abc12345 TODO [#A] Ship release'')]
           ''/graph/pages/p.md'' = Some text
      \<and> (0::nat) < length (split_lines text)
      \<and> [(''/graph/pages/p.md'', ''  - DONE Shipped'')]
          = writeFile [(''/graph/pages/p.md'', ''  - abc12345 TODO [#A] Ship release'')]
              ''/graph/pages/p.md'' (join_lines ((split_lines text)[0 := l']))
      \<and> keeps_bullet ''- '' (split_lines text ! 0) ''DONE Shipped'' l')
   \<and> (\<exists>text l'. readFile [(''/graph/pages/p.md'', ''  -abc12345 TODO [#A] Ship release'')]
           ''/graph/pages/p.md'' = Some text
      \<and> (0::nat) < length (split_lines text)
      \<and> [(''/graph/pages/p.md'', ''  -DONE Shipped'')]
          = writeFile [(''/graph/pages/p.md'', ''  -abc12345 TODO [#A] Ship release'')]
              ''/graph/pages/p.md'' (join_lines ((split_lines text)[0 := l']))
      \<and> keeps_bullet ''-'' (split_lines text ! 0) ''DONE Shipped'' l')"
proof (rule conjI)
  have "update_block sample_gens [(''/graph/pages/p.md'', ''  - abc12345 TODO [#A] Ship release'')]
       ''abc12345'' ''DONE Shipped''
     = (UpdateSuccess ''/graph/pages/p.md'' 0, [(''/graph/pages/p.md'', ''  - DONE Shipped'')])"
    by code_simp
  then show "\<exists>text l'. readFile [(''/graph/pages/p.md'', ''  - abc12345 TODO [#A] Ship release'')]
           ''/graph/pages/p.md'' = Some text
      \<and> (0::nat) < length (split_lines text)
      \<and> [(''/graph/pages/p.md'', ''  - DONE Shipped'')]
          = writeFile [(''/graph/pages/p.md'', ''  - abc12345 TODO [#A] Ship release'')]
              ''/graph/pages/p.md'' (join_lines ((split_lines text)[0 := l']))
      \<and> keeps_bullet ''- '' (split_lines text ! 0) ''DONE Shipped'' l'"
    by (rule update_block_keeps_bullet [THEN conjunct1, THEN spec, THEN spec, THEN spec, THEN mp])
next
  have "update_block_v3 sample_gens [(''/graph/pages/p.md'', ''  -abc12345 TODO [#A] Ship release'')]
       ''abc12345'' ''DONE Shipped''
     = (UpdateSuccess ''/graph/pages/p.md'' 0, [(''/graph/pages/p.md'', ''  -DONE Shipped'')])"
    by code_simp
  then show "\<exists>text l'. readFile [(''/graph/pages/p.md'', ''  -abc12345 TODO [#A] Ship release'')]
           ''/graph/pages/p.md'' = Some text
      \<and> (0::nat) < length (split_lines text)
      \<and> [(''/graph/pages/p.md'', ''  -DONE Shipped'')]
          = writeFile [(''/graph/pages/p.md'', ''  -abc12345 TODO [#A] Ship release'')]
              ''/graph/pages/p.md'' (join_lines ((split_lines text)[0 := l']))
      \<and> keeps_bullet ''-'' (split_lines text ! 0) ''DONE Shipped'' l'"
    by (rule update_block_keeps_bullet [THEN conjunct2, THEN spec, THEN spec, THEN spec, THEN mp])
qed

text \<open>
  The claim C2 as stated fails: the old line carries the task keyword \<open>TODO\<close> and the
  cookie \<open>[#A]\<close>, the rewritten line carries neither, with either version of the tool.
\<close>

theorem update_block_drops_keyword_and_cookie:
  "update_block sample_gens [(''/graph/pages/p.md'', ''  - abc12345 TODO [#A] Ship release'')]
       ''abc12345'' ''Shipped''
     = (UpdateSuccess ''/graph/pages/p.md'' 0, [(''/graph/pages/p.md'', ''  - Shipped'')])
   \<and> update_block_v3 sample_gens [(''/graph/pages/p.md'', ''  - abc12345 TODO [#A] Ship release'')]
       ''abc12345'' ''Shipped''
     = (UpdateSuccess ''/graph/pages/p.md'' 0, [(''/graph/pages/p.md'', ''  - Shipped'')])
   \<and> line_fields ''  - abc12345 TODO [#A] Ship release''
     = Some (Some TODO, Some PrioA, ''Ship release'', None, None, [], [])
   \<and> line_fields ''  - Shipped'' = Some (None, None, ''Shipped'', None, None, [], [])"
  by code_simp

text \<open>
  C3, as the code has it. Let the target block be found on a page, and let some
  search strategy match a line of the file of that page. Then \<open>delete_block\<close> removes
  exactly one line: the first line, in file order, that is matched by the first
  strategy, in the order of the five strategies, that matches any line at all. The
  other lines are written back unchanged and in their order, and every other file is
  left as it was. If moreover the front matter of the file ends in front of the
  removed line and has the same extent after the removal, then the contents of the
  blocks of the page are, in order, those before the removal with the block of the
  removed line taken out.
\<close>

theorem delete_block_removes_first_match:
  assumes ft: "find_target u (getAllPages gens fs) = Some (pg, b)"
    and rd: "readFile fs (path pg) = Some text"
    and k: "k < length (searchStrategies (take 8 (uuid b)) (content b))"
    and i: "i < length (split_lines text)"
    and hit: "(searchStrategies (take 8 (uuid b)) (content b) ! k) (split_lines text ! i)"
    and first: "\<forall>j<i. \<not> (searchStrategies (take 8 (uuid b)) (content b) ! k) (split_lines text ! j)"
    and earlier: "\<forall>k'<k. \<forall>l\<in>set (split_lines text).
                    \<not> (searchStrategies (take 8 (uuid b)) (content b) ! k') l"
  shows "delete_block gens fs u =
           (DeleteSuccess (path pg) k i,
            writeFile fs (path pg)
              (join_lines (take i (split_lines text) @ drop (Suc i) (split_lines text))))
       \<and> readFile (snd (delete_block gens fs u)) (path pg)
           = Some (join_lines (take i (split_lines text) @ drop (Suc i) (split_lines text)))
       \<and> (\<forall>q. q \<noteq> path pg \<longrightarrow> readFile (snd (delete_block gens fs u)) q = readFile fs q)
       \<and> (header_len (join_lines (take i (split_lines text) @ drop (Suc i) (split_lines text)))
            = header_len text
          \<and> header_len text \<le> length (join_lines (take i (split_lines text)))
          \<longrightarrow> (\<exists>before after.
                 page_contents text = before @ block_contents [split_lines text ! i] @ after
                 \<and> page_contents
                     (join_lines (take i (split_lines text) @ drop (Suc i) (split_lines text)))
                   = before @ after))"
proof -
  let ?ts = "searchStrategies (take 8 (uuid b)) (content b)"
  let ?ls = "split_lines text"
  let ?new = "join_lines (take i ?ls @ drop (Suc i) ?ls)"
  from i hit first have "first_index (?ts ! k) ?ls = Some i" by (rule first_index_SomeI)
  with k have "select_line ?ts ?ls = Some (k, i)" using earlier by (rule select_line_SomeI)
  with ft rd have d: "delete_block gens fs u = (DeleteSuccess (path pg) k i, writeFile fs (path pg) ?new)"
    by (simp add: delete_block_def splice1_def)
  have r1: "readFile (snd (delete_block gens fs u)) (path pg) = Some ?new"
    using rd by (simp add: d readFile_writeFile_same)
  have r2: "\<forall>q. q \<noteq> path pg \<longrightarrow> readFile (snd (delete_block gens fs u)) q = readFile fs q"
    by (simp add: d readFile_writeFile_other)
  have r3: "header_len ?new = header_len text \<and> header_len text \<le> length (join_lines (take i ?ls))
          \<longrightarrow> (\<exists>before after.
                 page_contents text = before @ block_contents [?ls ! i] @ after
                 \<and> page_contents ?new = before @ after)"
    using removed_line_contents[OF i] by blast
  from d r1 r2 r3 show ?thesis by (intro conjI)
qed

theorem delete_block_removes_first_match_witness:
  "delete_block
       (\<lambda>k n. if n = 4 then ''abc12345-0000-4000-8000-000000000000''
              else ''00000000-0000-4000-8000-000000000000'')
       [(''/graph/pages/p.md'',
         join_lines [''---'', ''title: Reviews'', ''---'', ''- keep'', ''- Review PR'', ''- Review PR''])]
       ''abc12345''
     = (DeleteSuccess ''/graph/pages/p.md'' 2 4,
        [(''/graph/pages/p.md'',
          join_lines [''---'', ''title: Reviews'', ''---'', ''- keep'', ''- Review PR''])])
   \<and> (\<exists>before after.
         page_contents
           (join_lines [''---'', ''title: Reviews'', ''---'', ''- keep'', ''- Review PR'', ''- Review PR''])
         = before @ [''Review PR''] @ after
       \<and> page_contents (join_lines [''---'', ''title: Reviews'', ''---'', ''- keep'', ''- Review PR''])
         = before @ after)"
proof -
  let ?gens = "\<lambda>(k::nat) (n::nat). if n = 4 then ''abc12345-0000-4000-8000-000000000000''
              else ''00000000-0000-4000-8000-000000000000''"
  let ?text = "join_lines [''---'', ''title: Reviews'', ''---'', ''- keep'', ''- Review PR'', ''- Review PR'']"
  let ?fs = "[(''/graph/pages/p.md'', ?text)]"
  let ?blk = "\<lambda>u c. \<lparr> uuid = u, content = c, level = 0, todo = None, scheduled = None,
      deadline = None, priority = None, properties = [], refs = [] \<rparr>"
  let ?b = "?blk ''abc12345-0000-4000-8000-000000000000'' ''Review PR''"
  let ?pg = "\<lparr> name = ''p'', title = ''Reviews'', path = ''/graph/pages/p.md'',
      blocks = [?blk ''00000000-0000-4000-8000-000000000000'' ''keep'', ?b,
                ?blk ''00000000-0000-4000-8000-000000000000'' ''Review PR''],
      page_properties = [(''title'', ''Reviews'')], isJournal = False, journalDay = None \<rparr>"
  let ?ts = "searchStrategies (take 8 (uuid ?b)) (content ?b)"
  have sl: "split_lines ?text
      = [''---'', ''title: Reviews'', ''---'', ''- keep'', ''- Review PR'', ''- Review PR'']"
    by code_simp
  have 1: "find_target ''abc12345'' (getAllPages ?gens ?fs) = Some (?pg, ?b)" by code_simp
  have 2: "readFile ?fs (path ?pg) = Some ?text" by code_simp
  have 3: "2 < length ?ts" by code_simp
  have 4: "4 < length (split_lines ?text)" by code_simp
  have 5: "(?ts ! 2) (split_lines ?text ! 4)" by code_simp
  have 6: "\<forall>j<4. \<not> (?ts ! 2) (split_lines ?text ! j)"
  proof (intro allI impI)
    fix j :: nat
    assume "j < 4"
    then have "j = 0 \<or> j = 1 \<or> j = 2 \<or> j = 3" by auto
    moreover have "\<not> (?ts ! 2) (split_lines ?text ! 0)" "\<not> (?ts ! 2) (split_lines ?text ! 1)"
      "\<not> (?ts ! 2) (split_lines ?text ! 2)" "\<not> (?ts ! 2) (split_lines ?text ! 3)"
      by code_simp+
    ultimately show "\<not> (?ts ! 2) (split_lines ?text ! j)" by auto
  qed
  have 7: "\<forall>k'<2. \<forall>l\<in>set (split_lines ?text). \<not> (?ts ! k') l"
  proof (intro allI impI)
    fix k' :: nat
    assume "k' < 2"
    then have "k' = 0 \<or> k' = 1" by auto
    moreover have "\<forall>l\<in>set (split_lines ?text). \<not> (?ts ! 0) l"
      "\<forall>l\<in>set (split_lines ?text). \<not> (?ts ! 1) l"
      by code_simp+
    ultimately show "\<forall>l\<in>set (split_lines ?text). \<not> (?ts ! k') l" by auto
  qed
  note res = delete_block_removes_first_match[OF 1 2 3 4 5 6 7]
  have new: "join_lines (take 4 (split_lines ?text) @ drop (Suc 4) (split_lines ?text))
      = join_lines [''---'', ''title: Reviews'', ''---'', ''- keep'', ''- Review PR'']"
    by code_simp
  have wf: "writeFile ?fs ''/graph/pages/p.md''
       (join_lines [''---'', ''title: Reviews'', ''---'', ''- keep'', ''- Review PR''])
     = [(''/graph/pages/p.md'', join_lines [''---'', ''title: Reviews'', ''---'', ''- keep'', ''- Review PR''])]"
    by code_simp
  have h: "header_len (join_lines [''---'', ''title: Reviews'', ''---'', ''- keep'', ''- Review PR''])
       = header_len ?text
     \<and> header_len ?text \<le> length (join_lines (take 4 (split_lines ?text)))"
    by code_simp
  have bc: "block_contents [split_lines ?text ! 4] = [''Review PR'']" by code_simp
  from res [THEN conjunct1] have a: "delete_block ?gens ?fs ''abc12345''
     = (DeleteSuccess ''/graph/pages/p.md'' 2 4,
        [(''/graph/pages/p.md'',
          join_lines [''---'', ''title: Reviews'', ''---'', ''- keep'', ''- Review PR''])])"
    using new wf by simp
  from res [THEN conjunct2, THEN conjunct2, THEN conjunct2] h
  have b: "\<exists>before after.
         page_contents ?text = before @ [''Review PR''] @ after
       \<and> page_contents (join_lines [''---'', ''title: Reviews'', ''---'', ''- keep'', ''- Review PR''])
         = before @ after"
    using new bc by simp
  from a b show ?thesis by (rule conjI)
qed

text \<open>
  The claim C3 as stated fails. The removed line need not be the first line of the
  file that a strategy of the request matches: in the first collection the first
  line matches the content strategy, and the second line, which carries the identity,
  is removed, because the identity strategy comes first. And the other blocks of the
  page need not stay: in the second collection the first line is removed, the rule
  \<open>---\<close> behind it becomes the opening of a front matter, and the blocks up to the
  next rule leave the page.
\<close>

theorem delete_block_prefers_earlier_strategy:
  "strategy3 ''Review PR'' ''- Review PR notes''
   \<and> delete_block sample_gens
       [(''/graph/pages/p.md'', join_lines [''- Review PR notes'', ''- abc12345 Review PR''])]
       ''abc12345''
     = (DeleteSuccess ''/graph/pages/p.md'' 0 1, [(''/graph/pages/p.md'', ''- Review PR notes'')])
   \<and> delete_block sample_gens
       [(''/graph/pages/p.md'', join_lines [''- abc12345 a'', ''---'', ''- b'', ''---'', ''- c''])]
       ''abc12345''
     = (DeleteSuccess ''/graph/pages/p.md'' 0 0,
        [(''/graph/pages/p.md'', join_lines [''---'', ''- b'', ''---'', ''- c''])])
   \<and> page_contents (join_lines [''- abc12345 a'', ''---'', ''- b'', ''---'', ''- c''])
       = [''a'', ''--'', ''b'', ''--'', ''c'']
   \<and> page_contents (join_lines [''---'', ''- b'', ''---'', ''- c'']) = [''c'']"
  by code_simp

text \<open>
  C10. The target block of the request below is the block of the first line, whose
  bullet marker is \<open>*\<close>; the expression of \<open>update_block\<close> accepts dash bullets only, so
  the call has to end in a not-found result with every file unchanged. It does not:
  the tool searches the raw lines for the text of the identity, finds it in the
  second line, which belongs to another block and only mentions the identity, and
  overwrites that line. The tools of version 4.0.0 and of version 2.1.0 behave alike.
  This is the search by raw text that is also behind the divergence shown for C1.
\<close>

theorem update_block_rewrites_other_line:
  "map_option (\<lambda>(pg, b). (take 8 (uuid b), content b))
       (find_target ''abc12345'' (getAllPages sample_gens
          [(''/graph/pages/p.md'', join_lines [''* abc12345 Ship release'', ''- See abc12345''])]))
     = Some (''abc12345'', ''Ship release'')
   \<and> star_plus_bullet ''* abc12345 Ship release''
   \<and> update_block sample_gens
       [(''/graph/pages/p.md'', join_lines [''* abc12345 Ship release'', ''- See abc12345''])]
       ''abc12345'' ''New''
     = (UpdateSuccess ''/graph/pages/p.md'' 1,
        [(''/graph/pages/p.md'', join_lines [''* abc12345 Ship release'', ''- New''])])
   \<and> update_block_v3 sample_gens
       [(''/graph/pages/p.md'', join_lines [''* abc12345 Ship release'', ''- See abc12345''])]
       ''abc12345'' ''New''
     = (UpdateSuccess ''/graph/pages/p.md'' 1,
        [(''/graph/pages/p.md'', join_lines [''* abc12345 Ship release'', ''- New''])])"
  by code_simp

section \<open>Further properties of the block parser\<close>

text \<open>
  C5, as the code has it. The content of a block is \<open>cleanLine\<close> (the line behind
  bullet, identity, task keyword and priority match) after the four removal passes
  of \<open>content_clean\<close> (scheduling markers, deadline markers, property tokens, priority
  cookies), trimmed; it arises from \<open>cleanLine\<close> by leaving characters out. The
  references are read from \<open>cleanLine\<close> before these passes, and there is no removal
  pass for block links, page links and tags. So whenever none of the four expressions
  matches in \<open>cleanLine\<close>, the content is \<open>cleanLine\<close> itself and the references of
  the block are exactly the reference tokens that occur in its content.
\<close>

theorem references_stay_in_content:
  assumes "parseLine fresh1 fresh2 l = Some b"
  shows "content b = clean_content (line_rest l) \<and> subseq (content b) (line_rest l)
       \<and> refs b = line_refs (line_rest l)
       \<and> (removal_idle (line_rest l)
            \<longrightarrow> content b = line_rest l \<and> refs b = line_refs (content b))"
proof -
  from assms have c: "content b = clean_content (line_rest l)"
    and r: "refs b = line_refs (line_rest l)"
    by (auto simp: parseLine_unfold split: if_splits)
  have s: "subseq (content b) (line_rest l)" unfolding c by (rule subseq_clean_content)
  have "content b = line_rest l" if "removal_idle (line_rest l)"
    using c removal_idle_clean[OF that line_rest_trimmed] by simp
  with c r s show ?thesis by simp
qed

theorem references_stay_in_content_witness:
  "parseLine ''u1'' ''u2'' ''  - TODO See [[Roadmap]] #urgent and ((01234567-89ab-cdef-0123-456789abcdef))''
     = Some \<lparr> uuid = ''u1'',
          content = ''See [[Roadmap]] #urgent and ((01234567-89ab-cdef-0123-456789abcdef))'',
          level = 1, todo = Some TODO, scheduled = None, deadline = None, priority = None,
          properties = [],
          refs = [''01234567-89ab-cdef-0123-456789abcdef'', ''Roadmap'', ''urgent''] \<rparr>
   \<and> line_rest ''  - TODO See [[Roadmap]] #urgent and ((01234567-89ab-cdef-0123-456789abcdef))''
     = ''See [[Roadmap]] #urgent and ((01234567-89ab-cdef-0123-456789abcdef))''
   \<and> [''01234567-89ab-cdef-0123-456789abcdef'', ''Roadmap'', ''urgent'']
       = line_refs ''See [[Roadmap]] #urgent and ((01234567-89ab-cdef-0123-456789abcdef))''"
proof -
  let ?l = "''  - TODO See [[Roadmap]] #urgent and ((01234567-89ab-cdef-0123-456789abcdef))''"
  let ?b = "\<lparr> uuid = ''u1'',
          content = ''See [[Roadmap]] #urgent and ((01234567-89ab-cdef-0123-456789abcdef))'',
          level = 1, todo = Some TODO, scheduled = None, deadline = None, priority = None,
          properties = [],
          refs = [''01234567-89ab-cdef-0123-456789abcdef'', ''Roadmap'', ''urgent''] \<rparr>"
  have p: "parseLine ''u1'' ''u2'' ?l = Some ?b" by code_simp
  have i: "removal_idle (line_rest ?l)" by code_simp
  from references_stay_in_content[OF p, THEN conjunct2, THEN conjunct2, THEN conjunct2, THEN mp, OF i]
  have "content ?b = line_rest ?l \<and> refs ?b = line_refs (content ?b)" .
  with p show ?thesis by simp
qed

text \<open>
  The claim C5 as stated fails: the spans of a page link and of a tag are extracted
  into the references and stay in the content.
\<close>

theorem parse_keeps_reference_markers:
  "parseLine ''u1'' ''u2'' ''- See [[Roadmap]] #urgent'' =
     Some \<lparr> uuid = ''u1'', content = ''See [[Roadmap]] #urgent'', level = 0, todo = None,
        scheduled = None, deadline = None, priority = None,
        properties = [], refs = [''Roadmap'', ''urgent''] \<rparr>"
  by code_simp

text \<open>
  C6. The priority expression is not anchored and the parser continues with its
  second capture, so the text in front of the cookie is lost: the line
  \<open>- Call Bob [#A] tomorrow\<close> yields the content \<open>tomorrow\<close>.
\<close>

theorem parse_drops_text_before_cookie:
  "parseBlocks gen ''- Call Bob [#A] tomorrow'' =
     [\<lparr> uuid = gen 0, content = ''tomorrow'', level = 0, todo = None,
        scheduled = None, deadline = None, priority = Some PrioA,
        properties = [], refs = [] \<rparr>]"
  by code_simp

text \<open>
  C7, as the code has it. Take a block the parser produced
  \<^item> whose content holds no line terminator, no property token and no priority cookie,
    and does not end with a colon when a date token is written behind it,
  \<^item> whose scheduled and deadline texts hold no line terminator, no priority cookie and
    neither of the two marker keywords,
  \<^item> whose properties are the ones its date tokens give rise to, and
  \<^item> whose written text (content and date tokens) does not begin with a task keyword
    followed by white space when the block has neither task state nor priority.

  Written as a line the way \<open>exportGraph\<close> writes a block (indentation, bullet, task
  keyword, priority cookie, content, scheduling and deadline marker) and parsed again,
  the block yields the same content, task state, priority, scheduled date, deadline
  and properties, and the same level, provided the written text does not begin with
  an identity token when the block has neither task state nor priority. Written the
  way \<open>insert_block\<close> writes a line (bullet, first eight characters of the identity,
  task keyword, priority cookie, content), a block without dates whose identity
  begins with eight hexadecimal digits yields the same six fields and the same short
  identity.
\<close>

theorem round_trip_written_line:
  assumes p: "parseLine fresh1 fresh2 l = Some b"
    and ft: "free_text (content b)"
    and colon: "date_tokens b \<noteq> [] \<longrightarrow> last (content b) \<noteq> CHR '':''"
    and sch: "\<forall>d. scheduled b = Some d \<longrightarrow> date_text d"
    and dlt: "\<forall>d. deadline b = Some d \<longrightarrow> date_text d"
    and pr: "properties b = assign_all [] (match_all property_at 0 (date_tokens b))"
    and kw: "todo b = None \<and> priority b = None
               \<longrightarrow> todoMatch (content b @ date_tokens b) = None"
  shows "((todo b = None \<and> priority b = None
            \<longrightarrow> fullUuidMatch (content b @ date_tokens b) = None
                \<and> shortUuidMatch (content b @ date_tokens b) = None)
          \<longrightarrow> (\<exists>b'. parseLine g1 g2 (export_line b) = Some b'
                    \<and> same_fields b' b \<and> level b' = level b))
       \<and> (scheduled b = None \<and> deadline b = None
            \<and> 8 \<le> length (uuid b) \<and> list_all is_hex (take 8 (uuid b))
          \<longrightarrow> (\<exists>b'. parseLine g1 g2
                       (insert_line (uuid b) (map_option todo_text (todo b))
                          (map_option priority_text (priority b)) (content b)) = Some b'
                    \<and> same_fields b' b \<and> take 8 (uuid b') = take 8 (uuid b)))"
proof -
  define c where "c = content b"
  define T where "T = date_tokens b"
  define X where "X = c @ T"
  define P where "P = (case priority b of None \<Rightarrow> X
      | Some q \<Rightarrow> CHR ''['' # CHR ''#'' # priority_text q @ CHR '']'' # CHR '' '' # X)"
  define R where "R = (case todo b of None \<Rightarrow> P | Some k \<Rightarrow> todo_text k @ CHR '' '' # P)"
  from parseLine_content_trimmed[OF p] have c_ne: "c \<noteq> []" and c_tr: "trimmed c"
    by (simp_all add: c_def)
  then have c_hd: "\<not> is_space (hd c)" by (simp add: trimmed_iff)
  have so: "\<forall>s. scheduled b = Some s \<longrightarrow> s \<noteq> [] \<and> CHR ''>'' \<notin> set s \<and> date_text s"
    using parsed_dates(1)[OF p] sch by blast
  have dl: "\<forall>d. deadline b = Some d \<longrightarrow> d \<noteq> [] \<and> CHR ''>'' \<notin> set d \<and> date_text d"
    using parsed_dates(2)[OF p] dlt by blast
  have T: "T = (case scheduled b of None \<Rightarrow> [] | Some s \<Rightarrow> '' SCHEDULED: <'' @ s @ ''>'')
              @ (case deadline b of None \<Rightarrow> [] | Some d \<Rightarrow> '' DEADLINE: <'' @ d @ ''>'')"
    using so dl by (auto simp: T_def date_tokens_def split: option.splits)
  have colon': "(case scheduled b of None \<Rightarrow> [] | Some s \<Rightarrow> '' SCHEDULED: <'' @ s @ ''>'')
              @ (case deadline b of None \<Rightarrow> [] | Some d \<Rightarrow> '' DEADLINE: <'' @ d @ ''>'') \<noteq> []
            \<longrightarrow> last c \<noteq> CHR '':''"
    using colon unfolding T[symmetric] by (simp add: T_def c_def)
  have ft': "free_text c" using ft by (simp add: c_def)
  note ct = content_then_tokens[OF c_ne c_tr ft' so dl colon', folded T, folded X_def]
  have X_ne: "X \<noteq> []" and X_hd: "\<not> is_space (hd X)" and X_dots: "list_all dot_char X"
    and X_last: "\<not> is_space (last X)"
    using c_ne c_hd ct(6,7) by (simp_all add: X_def)
  have pmX: "priorityMatch X = None" using ct(5) by (rule find_first_cookie_priorityMatch)
  have P_ne: "P \<noteq> []" and P_hd: "\<not> is_space (hd P)" and P_dots: "list_all dot_char P"
    and P_last: "last P = last X"
    using X_ne X_hd X_dots
    by (auto simp: P_def is_space_def dot_char_def is_line_term_def priority_text_props
        split: option.splits)
  have R_ne: "R \<noteq> []" and R_hd: "\<not> is_space (hd R)" and R_dots: "list_all dot_char R"
    and R_last: "last R = last X"
    using P_ne P_hd P_dots P_last
    by (auto simp: R_def todo_text_props dot_char_def is_line_term_def split: option.splits)
  have tm: "todoMatch R = (case todo b of None \<Rightarrow> None | Some k \<Rightarrow> Some (k, P))"
  proof (cases "todo b")
    case (Some k)
    then show ?thesis
      using todoMatch_keyword[OF P_ne P_hd P_dots, of k] by (simp add: R_def)
  next
    case None
    show ?thesis
    proof (cases "priority b")
      case (Some q)
      with None show ?thesis by (simp add: R_def P_def todoMatch_bracket)
    next
      case pn: None
      with None kw show ?thesis by (simp add: R_def P_def X_def c_def T_def)
    qed
  qed
  have pm: "priorityMatch P = (case priority b of None \<Rightarrow> None | Some q \<Rightarrow> Some (q, X))"
  proof (cases "priority b")
    case (Some q)
    then show ?thesis
      using priorityMatch_cookie[OF X_ne X_hd X_dots, of q] by (simp add: P_def)
  next
    case None
    then show ?thesis using pmX by (simp add: P_def)
  qed
  have at: "after_todo R = P" and tf: "map_option fst (todoMatch R) = todo b"
    using tm by (auto simp: after_todo_def R_def split: option.splits)
  have ap: "after_priority P = X" and pf: "map_option fst (priorityMatch P) = priority b"
    using pm by (auto simp: after_priority_def P_def split: option.splits)
  have props: "assign_all [] (match_all property_at 0 X) = properties b"
    using ct(3) pr by (simp add: X_def T_def)
  have cc: "clean_content X = content b" using ct(4) by (simp add: X_def c_def)
  have sd: "find_first (marker_at ''SCHEDULED:'') X = scheduled b"
    "find_first (marker_at ''DEADLINE:'') X = deadline b"
    using ct(1,2) by (simp_all add: X_def)
  have cb: "content b \<noteq> []" using c_ne by (simp add: c_def)
  have fields: "parseLine g1 g2 L = Some b' \<Longrightarrow> same_fields b' b"
    if "trim L \<noteq> []" "\<not> startsWith (trim L) ''#''" "after_uuid (strip_bullet (trim L)) = R" for L b'
  proof -
    assume a: "parseLine g1 g2 L = Some b'"
    have lr: "line_rest L = X" by (simp add: line_rest_def that(3) at ap)
    from a show "same_fields b' b"
      unfolding parseLine_unfold
      by (auto simp: same_fields_def that lr cc cb at tf pf props sd split: if_splits)
  qed
  have some: "\<exists>b'. parseLine g1 g2 L = Some b'"
    if "trim L \<noteq> []" "\<not> startsWith (trim L) ''#''" "after_uuid (strip_bullet (trim L)) = R" for L
  proof -
    have lr: "line_rest L = X" by (simp add: line_rest_def that(3) at ap)
    show ?thesis unfolding parseLine_unfold by (simp add: that lr cc cb)
  qed
  show ?thesis
  proof (intro conjI impI)
    assume idt: "todo b = None \<and> priority b = None
            \<longrightarrow> fullUuidMatch (content b @ date_tokens b) = None
                \<and> shortUuidMatch (content b @ date_tokens b) = None"
    define L where "L = replicate (2 * level b) (CHR '' '') @ CHR ''-'' # CHR '' '' # R"
    have ser: "export_line b = L"
      by (simp add: export_line_def L_def R_def P_def X_def c_def T_def split: option.splits)
    have ind: "list_all is_space (replicate (2 * level b) (CHR '' ''))"
      by (simp add: list_all_iff is_space_def)
    have "dropWhile is_space (rev (CHR '' '' # R)) = rev (CHR '' '' # R)"
      using R_ne R_last X_last by (intro dropWhile_space_id) (simp_all add: hd_rev)
    then have tl: "trim L = CHR ''-'' # CHR '' '' # R"
      unfolding L_def using trim_dash[OF ind, of "CHR '' '' # R"] by simp
    have sb: "strip_bullet (trim L) = R"
      using R_ne R_hd by (simp add: tl strip_bullet_def is_bullet_def is_space_def dropWhile_space_id)
    have nu: "fullUuidMatch R = None \<and> shortUuidMatch R = None"
    proof (cases "todo b")
      case (Some k)
      then have "hd R = hd (todo_text k)" by (simp add: R_def todo_text_props)
      with R_ne todo_text_not_uuid[of k] show ?thesis by (simp add: no_uuid_start)
    next
      case None
      show ?thesis
      proof (cases "priority b")
        case (Some q)
        with None have "hd R = CHR ''[''" by (simp add: R_def P_def)
        then have "\<not> is_uuid_char (hd R)" by (simp add: is_uuid_char_def is_hex_def)
        with R_ne show ?thesis by (simp add: no_uuid_start)
      next
        case pn: None
        with None idt show ?thesis by (simp add: R_def P_def X_def c_def T_def)
      qed
    qed
    then have au: "after_uuid (strip_bullet (trim L)) = R"
      by (simp add: sb parse_uuid_none)
    have t1: "trim L \<noteq> []" and t2: "\<not> startsWith (trim L) ''#''"
      by (simp_all add: tl startsWith_def)
    from some[OF t1 t2 au] obtain b' where b': "parseLine g1 g2 L = Some b'" by blast
    have "takeWhile is_space L = replicate (2 * level b) (CHR '' '')"
      unfolding L_def by (subst takeWhile_append2) (simp_all add: is_space_def)
    then have "level b' = level b"
      using b' unfolding parseLine_unfold by (auto split: if_splits)
    with fields[OF t1 t2 au b'] b' show "\<exists>b'. parseLine g1 g2 (export_line b) = Some b'
                    \<and> same_fields b' b \<and> level b' = level b"
      by (simp add: ser)
  next
    assume a: "scheduled b = None \<and> deadline b = None
            \<and> 8 \<le> length (uuid b) \<and> list_all is_hex (take 8 (uuid b))"
    define u where "u = take 8 (uuid b)"
    define L where "L = CHR ''-'' # CHR '' '' # u @ CHR '' '' # R"
    from a have Tn: "T = []" by (simp add: T)
    have ser: "insert_line (uuid b) (map_option todo_text (todo b))
        (map_option priority_text (priority b)) (content b) = L"
      by (simp add: insert_line_def L_def R_def P_def X_def c_def Tn u_def
          todo_text_props priority_text_props split: option.splits)
    have u_len: "length u = 8" using a by (simp add: u_def)
    have u_hex: "list_all is_hex u" using a by (simp add: u_def)
    from u_len obtain h hs where u_cons: "u = h # hs" by (cases u) auto
    with u_hex have h: "\<not> is_space h" by (simp add: is_hex_not_space)
    have "last L = last X" using R_ne R_last by (simp add: L_def)
    then have "trimmed L" using X_last by (simp add: trimmed_iff L_def is_space_def)
    then have tl: "trim L = L" by (rule trimmed_trim_id)
    have sb: "strip_bullet L = u @ CHR '' '' # R"
      using h by (simp add: strip_bullet_def L_def is_bullet_def u_cons is_space_def)
    have au: "after_uuid (u @ CHR '' '' # R) = R"
      and pu: "fst (parse_uuid g1 g2 (u @ CHR '' '' # R)) = u @ drop 8 g2"
      by (rule after_uuid_short[OF u_len u_hex R_ne R_hd R_dots])+
    have t1: "trim L \<noteq> []" and t2: "\<not> startsWith (trim L) ''#''"
      unfolding tl by (simp_all add: L_def startsWith_def)
    have t3: "after_uuid (strip_bullet (trim L)) = R" by (simp add: tl sb au)
    from some[OF t1 t2 t3] obtain b' where b': "parseLine g1 g2 L = Some b'" by blast
    then have "uuid b' = u @ drop 8 g2"
      unfolding parseLine_unfold by (auto simp: tl sb pu split: if_splits)
    then have "take 8 (uuid b') = take 8 (uuid b)" using u_len by (simp add: u_def)
    with fields[OF t1 t2 t3 b'] b'
    show "\<exists>b'. parseLine g1 g2
                       (insert_line (uuid b) (map_option todo_text (todo b))
                          (map_option priority_text (priority b)) (content b)) = Some b'
                    \<and> same_fields b' b \<and> take 8 (uuid b') = take 8 (uuid b)"
      by (simp add: ser)
  qed
qed

theorem round_trip_written_line_witness:
  "export_line \<lparr> uuid = ''u1'', content = ''Ship release'', level = 1, todo = Some TODO,
        scheduled = Some ''2025-01-10'', deadline = Some ''2025-02-01'', priority = Some PrioA,
        properties = [(''SCHEDULED'', ''<2025-01-10>''), (''DEADLINE'', ''<2025-02-01>'')],
        refs = [] \<rparr>
     = ''  - TODO [#A] Ship release SCHEDULED: <2025-01-10> DEADLINE: <2025-02-01>''
   \<and> (\<exists>b'. parseLine ''g1'' ''g2''
              ''  - TODO [#A] Ship release SCHEDULED: <2025-01-10> DEADLINE: <2025-02-01>'' = Some b'
        \<and> same_fields b' \<lparr> uuid = ''u1'', content = ''Ship release'', level = 1, todo = Some TODO,
              scheduled = Some ''2025-01-10'', deadline = Some ''2025-02-01'', priority = Some PrioA,
              properties = [(''SCHEDULED'', ''<2025-01-10>''), (''DEADLINE'', ''<2025-02-01>'')],
              refs = [] \<rparr>
        \<and> level b' = 1)
   \<and> insert_line ''00000000-0000-4000-8000-000000000000'' (Some ''DOING'') None ''Ship release''
     = ''- 00000000 DOING Ship release''
   \<and> (\<exists>b'. parseLine ''g1'' ''g2'' ''- 00000000 DOING Ship release'' = Some b'
        \<and> same_fields b' \<lparr> uuid = ''00000000-0000-4000-8000-000000000000'',
              content = ''Ship release'', level = 0, todo = Some DOING, scheduled = None,
              deadline = None, priority = None, properties = [], refs = [] \<rparr>
        \<and> take 8 (uuid b') = ''00000000'')"
proof -
  let ?la = "''  - TODO [#A] Ship release SCHEDULED: <2025-01-10> DEADLINE: <2025-02-01>''"
  let ?a = "\<lparr> uuid = ''u1'', content = ''Ship release'', level = 1, todo = Some TODO,
        scheduled = Some ''2025-01-10'', deadline = Some ''2025-02-01'', priority = Some PrioA,
        properties = [(''SCHEDULED'', ''<2025-01-10>''), (''DEADLINE'', ''<2025-02-01>'')],
        refs = [] \<rparr>"
  let ?lb = "''- DOING Ship release''"
  let ?b = "\<lparr> uuid = ''00000000-0000-4000-8000-000000000000'',
              content = ''Ship release'', level = 0, todo = Some DOING, scheduled = None,
              deadline = None, priority = None, properties = [], refs = [] \<rparr>"
  have ft: "free_text ''Ship release''" by code_simp
  have d1: "date_text ''2025-01-10''" and d2: "date_text ''2025-02-01''" by code_simp+
  have pa: "parseLine ''u1'' ''u2'' ?la = Some ?a" by code_simp
  have a1: "free_text (content ?a)" using ft by simp
  have a2: "date_tokens ?a \<noteq> [] \<longrightarrow> last (content ?a) \<noteq> CHR '':''" by simp
  have a3: "\<forall>d. scheduled ?a = Some d \<longrightarrow> date_text d" using d1 by simp
  have a4: "\<forall>d. deadline ?a = Some d \<longrightarrow> date_text d" using d2 by simp
  have a5: "properties ?a = assign_all [] (match_all property_at 0 (date_tokens ?a))" by code_simp
  have a6: "todo ?a = None \<and> priority ?a = None
               \<longrightarrow> todoMatch (content ?a @ date_tokens ?a) = None" by simp
  have a7: "todo ?a = None \<and> priority ?a = None
            \<longrightarrow> fullUuidMatch (content ?a @ date_tokens ?a) = None
                \<and> shortUuidMatch (content ?a @ date_tokens ?a) = None" by simp
  have ea: "export_line ?a = ?la" by code_simp
  from round_trip_written_line[OF pa a1 a2 a3 a4 a5 a6, of "''g1''" "''g2''", THEN conjunct1, THEN mp, OF a7]
  have ra: "\<exists>b'. parseLine ''g1'' ''g2'' ?la = Some b' \<and> same_fields b' ?a \<and> level b' = 1"
    unfolding ea by simp
  have pb: "parseLine ''00000000-0000-4000-8000-000000000000'' ''u2'' ?lb = Some ?b" by code_simp
  have b1: "free_text (content ?b)" using ft by simp
  have b2: "date_tokens ?b \<noteq> [] \<longrightarrow> last (content ?b) \<noteq> CHR '':''" by simp
  have b3: "\<forall>d. scheduled ?b = Some d \<longrightarrow> date_text d" by simp
  have b4: "\<forall>d. deadline ?b = Some d \<longrightarrow> date_text d" by simp
  have b5: "properties ?b = assign_all [] (match_all property_at 0 (date_tokens ?b))" by code_simp
  have b6: "todo ?b = None \<and> priority ?b = None
               \<longrightarrow> todoMatch (content ?b @ date_tokens ?b) = None" by simp
  have b7: "scheduled ?b = None \<and> deadline ?b = None
            \<and> 8 \<le> length (uuid ?b) \<and> list_all is_hex (take 8 (uuid ?b))" by code_simp
  have eb: "insert_line (uuid ?b) (map_option todo_text (todo ?b))
              (map_option priority_text (priority ?b)) (content ?b) = ''- 00000000 DOING Ship release''"
    by code_simp
  from round_trip_written_line[OF pb b1 b2 b3 b4 b5 b6, of "''g1''" "''g2''", THEN conjunct2, THEN mp, OF b7]
  have rb: "\<exists>b'. parseLine ''g1'' ''g2'' ''- 00000000 DOING Ship release'' = Some b'
        \<and> same_fields b' ?b \<and> take 8 (uuid b') = ''00000000''"
    unfolding eb by simp
  have ib: "insert_line ''00000000-0000-4000-8000-000000000000'' (Some ''DOING'') None ''Ship release''
     = ''- 00000000 DOING Ship release''" by code_simp
  from ea ra ib rb show ?thesis by (intro conjI)
qed

text \<open>
  The claim C7 as stated fails. The block of the line \<open>- time: 5 DONE deal\<close> has no
  task state, the content \<open>DONE deal\<close> and the property \<open>time\<close>. Written back by
  \<open>exportGraph\<close> and parsed again it has the task state \<open>DONE\<close>, the content \<open>deal\<close> and
  no property; written back by \<open>insert_block\<close> likewise; written back by \<open>insertBlock\<close>,
  which writes the property as \<open> :time: 5\<close>, it has the task state \<open>DONE\<close> and the
  content \<open>deal :\<close>.
\<close>

theorem round_trip_changes_task_state:
  "parseLine ''00000000-0000-4000-8000-000000000000'' ''u2'' ''- time: 5 DONE deal'' =
     Some \<lparr> uuid = ''00000000-0000-4000-8000-000000000000'', content = ''DONE deal'', level = 0,
        todo = None, scheduled = None, deadline = None, priority = None,
        properties = [(''time'', ''5'')], refs = [] \<rparr>
   \<and> export_line \<lparr> uuid = ''00000000-0000-4000-8000-000000000000'', content = ''DONE deal'',
        level = 0, todo = None, scheduled = None, deadline = None, priority = None,
        properties = [(''time'', ''5'')], refs = [] \<rparr> = ''- DONE deal''
   \<and> parseLine ''g1'' ''g2'' ''- DONE deal'' =
     Some \<lparr> uuid = ''g1'', content = ''deal'', level = 0,
        todo = Some DONE, scheduled = None, deadline = None, priority = None,
        properties = [], refs = [] \<rparr>
   \<and> insert_line ''00000000-0000-4000-8000-000000000000'' None None ''DONE deal''
     = ''- 00000000 DONE deal''
   \<and> parseLine ''g1'' ''00000000-0000-4000-8000-000000000000'' ''- 00000000 DONE deal'' =
     Some \<lparr> uuid = ''00000000-0000-4000-8000-000000000000'', content = ''deal'', level = 0,
        todo = Some DONE, scheduled = None, deadline = None, priority = None,
        properties = [], refs = [] \<rparr>
   \<and> insertBlock_line ''00000000-0000-4000-8000-000000000000'' None None ''DONE deal'' None None
        [(''time'', ''5'')]
     = ''- 00000000-0000-4000-8000-000000000000 DONE deal :time: 5''
   \<and> parseLine ''g1'' ''g2'' ''- 00000000-0000-4000-8000-000000000000 DONE deal :time: 5'' =
     Some \<lparr> uuid = ''00000000-0000-4000-8000-000000000000'', content = ''deal :'', level = 0,
        todo = Some DONE, scheduled = None, deadline = None, priority = None,
        properties = [(''time'', ''5'')], refs = [] \<rparr>"
  by code_simp

section \<open>Properties of search\<close>

text \<open>
  C8. The expression object keeps \<open>lastIndex\<close> between the calls of \<open>test\<close>. In a
  collection with one page named \<open>urgent\<close> whose only block has the content
  \<open>urgent\<close>, the query \<open>urgent\<close> matches the content of the block, but the page hit
  leaves \<open>lastIndex\<close> at 6 and the test of the block starts there: the block hit is
  missing. The example of the claim (a page titled \<open>Urgent Matters\<close> with the block
  \<open>this is URGENT\<close>) does yield both hits.
\<close>

theorem search_misses_block_after_page_hit:
  "map content (blocks (hd (getAllPages gens [(''/graph/pages/urgent.md'', ''- urgent'')]))) = [''urgent'']
   \<and> matches_ci ''urgent'' ''urgent''
   \<and> search gens [(''/graph/pages/urgent.md'', ''- urgent'')] ''urgent'' = [PageHit ''urgent'']
   \<and> search gens [(''/graph/pages/Urgent Matters.md'', ''- this is URGENT'')] ''urgent''
       = [PageHit ''Urgent Matters'',
          BlockHit ''Urgent Matters'' ''this is URGENT'' (take 8 (gens 0 0)) None]"
  by code_simp

section \<open>Properties of journal pages\<close>

text \<open>
  C9. A journal page that \<open>create_journal_page\<close> creates is written to the journals
  directory under the date part of the ISO time stamp of its date (\<open>YYYY-MM-DD\<close>,
  hyphen-separated) with the extension \<open>.md\<close>. Whenever that file is parsed, whatever
  its text is by then, the page has the date as its name and \<open>isJournal\<close> true, and
  its \<open>journalDay\<close> is undefined, since \<open>journalDay\<close> is read from names of the form
  \<open>YYYY_MM_DD\<close> only.
\<close>

theorem journal_page_has_no_journal_day:
  assumes "iso_date_part dateStr"
    and "create_journal_page root fs dateStr localeDate = (Created p, fs')"
  shows "p = root @ ''/journals/'' @ dateStr @ ''.md''
         \<and> readFile fs' p = Some (journal_text dateStr localeDate)
         \<and> (\<forall>gen text. name (readPageFile gen p text) = dateStr
                \<and> isJournal (readPageFile gen p text)
                \<and> journalDay (readPageFile gen p text) = None)"
proof -
  from assms(2) have p: "p = root @ ''/journals/'' @ dateStr @ ''.md''"
    and n: "readFile fs p = None"
    and fs': "fs' = fs @ [(p, journal_text dateStr localeDate)]"
    by (auto simp: create_journal_page_def journal_path_def path_join_def split: if_splits)
  from n fs' have r: "readFile fs' p = Some (journal_text dateStr localeDate)"
    by (simp add: readFile_def map_add_Some_iff)
  note d = iso_date_part_chars[OF assms(1)]
  have "p = (root @ ''/journals'') @ CHR ''/'' # dateStr @ ''.md''"
    by (simp add: p)
  then have nm: "page_name_of p = dateStr"
    by (simp only: page_name_md[OF d(1,2,4)])
  have j: "str_includes p ''/journals/''"
    unfolding str_includes_sublist p by (rule sublist_appendI)
  have "name (readPageFile gen p c) = dateStr \<and> isJournal (readPageFile gen p c)
      \<and> journalDay (readPageFile gen p c) = None" for gen c
    using nm j no_underscore_no_journal_day[OF d(3)]
    by (simp add: readPageFile_def Let_def case_prod_beta)
  with p r show ?thesis by blast
qed

theorem journal_page_has_no_journal_day_witness:
  "iso_date_part ''2025-01-10''
   \<and> create_journal_page ''/graph'' [] ''2025-01-10'' ''1/10/2025''
       = (Created ''/graph/journals/2025-01-10.md'',
          [(''/graph/journals/2025-01-10.md'', journal_text ''2025-01-10'' ''1/10/2025'')])
   \<and> (let pg = readPageFile (sample_gens 0) ''/graph/journals/2025-01-10.md''
                  (journal_text ''2025-01-10'' ''1/10/2025'')
      in name pg = ''2025-01-10'' \<and> isJournal pg \<and> journalDay pg = None)"
proof -
  have i: "iso_date_part ''2025-01-10''" by code_simp
  have c: "create_journal_page ''/graph'' [] ''2025-01-10'' ''1/10/2025''
       = (Created ''/graph/journals/2025-01-10.md'',
          [(''/graph/journals/2025-01-10.md'', journal_text ''2025-01-10'' ''1/10/2025'')])"
    by code_simp
  from journal_page_has_no_journal_day[OF i c] i c show ?thesis
    by (simp add: Let_def)
qed

end
